theory Spec2Isabelle
  imports Complex_Main "HOL-Library.Word"
begin

section \<open>JavaScript strings\<close>

text \<open>
  A JavaScript string is modelled as the list of its character codes. The claims below
  never depend on how many bits a character has, so the same model covers an engine that
  counts UTF-16 code units and one that counts code points. \<open>lit\<close> embeds a literal
  of the source.
\<close>

type_synonym jsstring = "nat list"

definition lit :: "string \<Rightarrow> jsstring" where
  "lit s = map of_char s"

abbreviation LF :: nat where "LF \<equiv> 10"
abbreviation CR :: nat where "CR \<equiv> 13"
abbreviation SP :: nat where "SP \<equiv> 32"

section \<open>The normalization (lines 266 and 267)\<close>

text \<open>
  \<^verbatim>\<open>line_read.replace(/(\r*\n)+/g, ' ')\<close> scans the string from the left. Where
  \<^verbatim>\<open>(\r*\n)+\<close> matches, the longest match is replaced by one space and the scan goes
  on behind it; elsewhere the character is kept. \<open>crlf_unit\<close> matches one
  \<^verbatim>\<open>\r*\n\<close> at the head of a string and returns what follows it, \<open>crlf_more\<close>
  takes away as many further ones as there are (the quantifiers are greedy, and each
  \<^verbatim>\<open>\r*\n\<close> is determined by the text, so the match is the longest one).
\<close>

fun crlf_unit :: "jsstring \<Rightarrow> jsstring option" where
  "crlf_unit [] = None"
| "crlf_unit (c # cs) = (if c = LF then Some cs else if c = CR then crlf_unit cs else None)"

lemma crlf_unit_shorter: "crlf_unit s = Some r \<Longrightarrow> length r < length s"
  by (induction s) (auto split: if_splits)

function crlf_more :: "jsstring \<Rightarrow> jsstring" where
  "crlf_more s = (case crlf_unit s of None \<Rightarrow> s | Some r \<Rightarrow> crlf_more r)"
  by pat_completeness auto
termination
  by (relation "measure length") (auto simp: crlf_unit_shorter)

lemma crlf_more_le: "length (crlf_more s) \<le> length s"
proof (induction s rule: crlf_more.induct)
  case (1 s)
  show ?case
  proof (cases "crlf_unit s")
    case None then show ?thesis by simp
  next
    case (Some r)
    with 1 crlf_unit_shorter[OF Some] show ?thesis by simp
  qed
qed

function replace_newlines :: "jsstring \<Rightarrow> jsstring" where
  "replace_newlines [] = []"
| "replace_newlines (c # cs) =
     (case crlf_unit (c # cs) of
        Some r \<Rightarrow> SP # replace_newlines (crlf_more r)
      | None \<Rightarrow> c # replace_newlines cs)"
  by pat_completeness auto
termination
proof (relation "measure length")
  fix c cs r
  assume "crlf_unit (c # cs) = Some r"
  then have "length r < length (c # cs)" by (rule crlf_unit_shorter)
  moreover have "length (crlf_more r) \<le> length r" by (rule crlf_more_le)
  ultimately show "(crlf_more r, c # cs) \<in> measure length" by simp
qed simp_all

text \<open>\<^verbatim>\<open>line_read.replace(/ +/g, ' ')\<close>: every run of spaces becomes one space.\<close>

function replace_spaces :: "jsstring \<Rightarrow> jsstring" where
  "replace_spaces [] = []"
| "replace_spaces (c # cs) =
     (if c = SP then SP # replace_spaces (dropWhile (\<lambda>x. x = SP) cs)
      else c # replace_spaces cs)"
  by pat_completeness auto
termination
  by (relation "measure length") (auto simp: length_dropWhile_le less_Suc_eq_le)

text \<open>Both replacements, in the order of the source.\<close>

definition normalize_line :: "jsstring \<Rightarrow> jsstring" where
  "normalize_line s = replace_spaces (replace_newlines s)"

text \<open>
  One carriage-return/line-feed sequence as the pattern reads it: \<open>k\<close> carriage returns
  and a line feed.
\<close>

definition crlf_seq :: "nat \<Rightarrow> jsstring" where
  "crlf_seq k = replicate k CR @ [LF]"


section \<open>JavaScript numbers and \<open>parseInt\<close>\<close>

text \<open>
  The sizes of the source are JavaScript numbers. Only integers and \<open>NaN\<close> can arise:
  \<open>parseInt\<close> gives an integer or \<open>NaN\<close>, the defaults are integers, and \<open>Math.min\<close>,
  \<open>Math.ceil\<close>, \<open>/\<close> and \<open>*\<close> map \<open>NaN\<close> to \<open>NaN\<close>. Integers are unbounded here; a
  double is exact up to \<open>2 ^ 53\<close>, far above any corpus size the sizes are clamped to.
\<close>

datatype jsnum = NaN | Num int

text \<open>\<open>x <= 0\<close>: every comparison with \<open>NaN\<close> is false.\<close>

fun js_le_zero :: "jsnum \<Rightarrow> bool" where
  "js_le_zero NaN = False"
| "js_le_zero (Num n) = (n \<le> 0)"

text \<open>\<open>Math.min(m, x)\<close> for an integer \<open>m\<close>.\<close>

fun Math_min :: "int \<Rightarrow> jsnum \<Rightarrow> jsnum" where
  "Math_min m NaN = NaN"
| "Math_min m (Num n) = Num (min m n)"

text \<open>
  \<open>parseInt(s, 10)\<close> as ECMAScript defines it: leading white space is skipped, one sign
  is read, then the longest run of decimal digits; no digit gives \<open>NaN\<close>, and whatever
  follows the digits is ignored.
\<close>

definition is_white_space :: "nat \<Rightarrow> bool" where
  "is_white_space c \<longleftrightarrow>
     c \<in> {9, 10, 11, 12, 13, 32, 160, 5760, 8232, 8233, 8239, 8287, 12288, 65279}
     \<or> (8192 \<le> c \<and> c \<le> 8202)"

definition is_digit :: "nat \<Rightarrow> bool" where
  "is_digit c \<longleftrightarrow> 48 \<le> c \<and> c \<le> 57"

definition digits_value :: "jsstring \<Rightarrow> int" where
  "digits_value z = foldl (\<lambda>acc c. 10 * acc + int (c - 48)) 0 z"

definition parseInt :: "jsstring \<Rightarrow> jsnum" where
  "parseInt s =
     (let t = dropWhile is_white_space s;
          negative = (t \<noteq> [] \<and> hd t = 45);
          t' = (if t \<noteq> [] \<and> (hd t = 43 \<or> hd t = 45) then tl t else t);
          z = takeWhile is_digit t'
      in if z = [] then NaN
         else Num ((if negative then - 1 else 1) * digits_value z))"

section \<open>String methods\<close>

text \<open>
  \<open>s.slice(start, end)\<close>: a negative index counts from the end of the string, and both
  indices are clamped to the string.
\<close>

definition slice :: "jsstring \<Rightarrow> int \<Rightarrow> int \<Rightarrow> jsstring" where
  "slice s start end =
     (let len = int (length s);
          from = (if start < 0 then max (len + start) 0 else min start len);
          to = (if end < 0 then max (len + end) 0 else min end len)
      in take (nat (to - from)) (drop (nat from) s))"

text \<open>\<open>s.slice(start)\<close>: the end defaults to the length.\<close>

definition slice_from :: "jsstring \<Rightarrow> int \<Rightarrow> jsstring" where
  "slice_from s start = slice s start (int (length s))"

text \<open>\<open>s.substring(start)\<close> for a start that is not negative.\<close>

definition substring :: "jsstring \<Rightarrow> nat \<Rightarrow> jsstring" where
  "substring s start = drop start s"

section \<open>The world outside the script\<close>

text \<open>
  Everything \<open>random_content\<close> reads from outside is a field of \<open>world\<close>:
  the bytes of the corpus file, which calls of the \<open>fs\<close> module and of \<open>Buffer.alloc\<close>
  throw, the decoder behind \<open>Buffer.toString('utf8')\<close>, the values \<open>Math.random()\<close>
  returns (the \<open>k\<close>-th call returns \<open>math_random w k\<close>, a fraction in \<open>[0, 1)\<close>), and
  the text \<open>x.toString(36)\<close> the engine gives for a fraction \<open>x\<close> (ECMAScript leaves the
  digits it prints to the engine).
  The size \<open>fs.statSync\<close> reports is the length of \<open>corpus_bytes\<close>.
\<close>

type_synonym byte = "8 word"

record world =
  corpus_bytes :: "byte list"
  stat_throws :: bool
  open_throws :: bool
  alloc_throws :: "jsnum \<Rightarrow> bool"
  read_throws :: "nat \<Rightarrow> nat \<Rightarrow> bool"
  close_throws :: bool
  utf8 :: "byte list \<Rightarrow> jsstring"
  math_random :: "nat \<Rightarrow> rat"
  toString36 :: "rat \<Rightarrow> jsstring"

datatype error =
    RangeError string
  | SyntaxError string
  | Error string
  | SystemError

text \<open>
  \<open>fs.readSync(fd, buffer, offset, length, position)\<close> copies into \<open>buffer\<close>, from index
  \<open>offset\<close> on, the bytes of the file from \<open>position\<close> on, at most \<open>length\<close> of them and
  no further than the end of the file, and returns how many it copied. It throws when
  the world says so (\<open>read_throws w i k\<close>: read \<open>k\<close> of iteration \<open>i\<close>) and when
  \<open>offset + length\<close> is beyond the buffer.
\<close>

definition readSync ::
  "world \<Rightarrow> nat \<Rightarrow> nat \<Rightarrow> byte list \<Rightarrow> nat \<Rightarrow> nat \<Rightarrow> nat \<Rightarrow> error + (byte list \<times> nat)" where
  "readSync w i k buffer offset len position =
     (if read_throws w i k \<or> length buffer < offset + len then Inl SystemError
      else let data = take len (drop position (corpus_bytes w))
           in Inr (take offset buffer @ data @ drop (offset + length data) buffer, length data))"

section \<open>Argument validation (lines 149 to 197)\<close>

text \<open>\<open>r.variables\<close>: \<open>hasOwnProperty\<close> is membership in the domain.\<close>

type_synonym variables = "string \<rightharpoonup> jsstring"

record config =
  cfg_base_path :: jsstring
  cfg_block_size :: jsnum
  cfg_total_size :: jsnum

definition validate :: "variables \<Rightarrow> error + config" where
  "validate v =
     (case v ''base_path'' of
        None \<Rightarrow> Inl (SyntaxError ''random_content() error: base_path argument missing'')
      | Some bp \<Rightarrow>
          if bp = [] then Inl (RangeError ''random_content() error: base_path argument is empty'')
          else
            let base_path = (if slice_from bp (- 1) = lit ''/'' then bp else bp @ lit ''/'') in
            (case v ''corpus'' of
               None \<Rightarrow> Inl (SyntaxError ''random_content() error: corpus argument missing'')
             | Some c \<Rightarrow>
                 if c = [] then Inl (RangeError ''random_content() error: corpus argument is empty'')
                 else
                   let block_size = (case v ''block_size'' of Some s \<Rightarrow> parseInt s | None \<Rightarrow> Num 80) in
                   if v ''block_size'' \<noteq> None \<and> js_le_zero block_size
                   then Inl (RangeError ''random_content() error: block_size argument is not a positive integer'')
                   else
                     let total_size = (case v ''total_size'' of Some s \<Rightarrow> parseInt s | None \<Rightarrow> Num 500) in
                     if v ''total_size'' \<noteq> None \<and> js_le_zero total_size
                     then Inl (RangeError ''random_content() error: total_size argument is not a positive integer'')
                     else Inr \<lparr>cfg_base_path = base_path, cfg_block_size = block_size,
                                cfg_total_size = total_size\<rparr>))"

text \<open>Lines 210 and 213: both sizes are clamped to the size of the corpus file.\<close>

definition effective_sizes :: "nat \<Rightarrow> config \<Rightarrow> jsnum \<times> jsnum" where
  "effective_sizes file_size cfg =
     (Math_min (int file_size) (cfg_block_size cfg),
      Math_min (int file_size) (cfg_total_size cfg))"

section \<open>The sampling loop (lines 221 to 294)\<close>

text \<open>
  The variables of the loop. \<open>iteration\<close> and \<open>fragments\<close> are not variables of the
  source: \<open>iteration\<close> counts the passes made so far (pass \<open>i\<close> makes the calls \<open>2 * i\<close>
  and \<open>2 * i + 1\<close> of \<open>Math.random()\<close>), and \<open>fragments\<close> keeps, for every anchor appended
  to \<open>built_contents\<close>, its page identifier and its text.
\<close>

record loop_state =
  read_buffer :: "byte list"
  built_contents :: jsstring
  concatenated_text_length :: nat
  loop_limiter :: nat
  iteration :: nat
  fragments :: "(jsstring \<times> jsstring) list"

text \<open>Lines 249 to 257: the read at the random offset and the read that wraps around.\<close>

definition read_block :: "world \<Rightarrow> nat \<Rightarrow> byte list \<Rightarrow> nat \<Rightarrow> nat \<Rightarrow> error + byte list" where
  "read_block w i buffer block_size read_offset =
     (case readSync w i 0 buffer 0 block_size read_offset of
        Inl e \<Rightarrow> Inl e
      | Inr (buffer1, bytes_read) \<Rightarrow>
          if bytes_read < block_size then
            (case readSync w i 1 buffer1 bytes_read (block_size - bytes_read) 0 of
               Inl e \<Rightarrow> Inl e
             | Inr (buffer2, _) \<Rightarrow> Inr buffer2)
          else Inr buffer1)"

text \<open>
  Line 241 with the reads: \<open>Math.floor(Math.random() * corpus_stats.size)\<close> is the offset.
  The product is taken exactly; the rounding of the double product never reaches the size.
\<close>

definition sample :: "world \<Rightarrow> nat \<Rightarrow> byte list \<Rightarrow> nat \<Rightarrow> error + byte list" where
  "sample w i buffer block_size =
     read_block w i buffer block_size
       (nat \<lfloor>math_random w (2 * i) * of_nat (length (corpus_bytes w))\<rfloor>)"

text \<open>Lines 272 to 281: the line is trimmed when it would pass the total size.\<close>

definition trim_line :: "nat \<Rightarrow> nat \<Rightarrow> jsstring \<Rightarrow> jsstring \<times> nat" where
  "trim_line total_size text_length line_read =
     (if text_length + length line_read > total_size
      then (slice line_read 0 (int total_size - (int text_length + int (length line_read))),
            total_size)
      else (line_read, text_length + length line_read))"

text \<open>Line 290: the page identifier and the anchor.\<close>

definition page_id :: "world \<Rightarrow> rat \<Rightarrow> jsstring" where
  "page_id w x = substring (toString36 w x) 2"

definition link_target :: "jsstring \<Rightarrow> jsstring \<Rightarrow> jsstring" where
  "link_target base_path ident = base_path @ ident @ lit ''.html''"

definition anchor :: "jsstring \<Rightarrow> jsstring \<times> jsstring \<Rightarrow> jsstring" where
  \<open>anchor base_path fragment =
     lit ''<a href="'' @ link_target base_path (fst fragment) @ lit ''">'' @ snd fragment
       @ lit ''</a>''\<close>

definition loop_body :: "world \<Rightarrow> jsstring \<Rightarrow> nat \<Rightarrow> nat \<Rightarrow> loop_state \<Rightarrow> error + loop_state" where
  "loop_body w base_path block_size total_size st =
     (case sample w (iteration st) (read_buffer st) block_size of
        Inl e \<Rightarrow> Inl e
      | Inr buffer \<Rightarrow>
          let line_read = normalize_line (utf8 w buffer);
              (line_read', text_length) =
                 trim_line total_size (concatenated_text_length st) line_read;
              fragment = (page_id w (math_random w (2 * iteration st + 1)), line_read')
          in Inr \<lparr>read_buffer = buffer,
                  built_contents = built_contents st @ anchor base_path fragment,
                  concatenated_text_length = text_length,
                  loop_limiter = loop_limiter st - 1,
                  iteration = iteration st + 1,
                  fragments = fragments st @ [fragment]\<rparr>)"

lemma loop_body_limiter:
  "loop_body w base_path block_size total_size st = Inr st' \<Longrightarrow>
     loop_limiter st' = loop_limiter st - 1"
  by (auto simp: loop_body_def Let_def split: sum.splits prod.splits)

function sampling_loop ::
  "world \<Rightarrow> jsstring \<Rightarrow> nat \<Rightarrow> nat \<Rightarrow> loop_state \<Rightarrow> error + loop_state" where
  "sampling_loop w base_path block_size total_size st =
     (if concatenated_text_length st < total_size \<and> loop_limiter st > 0 then
        (case loop_body w base_path block_size total_size st of
           Inl e \<Rightarrow> Inl e
         | Inr st' \<Rightarrow> sampling_loop w base_path block_size total_size st')
      else Inr st)"
  by pat_completeness auto
termination
  by (relation "measure (\<lambda>(w, base_path, block_size, total_size, st). loop_limiter st)")
    (auto dest: loop_body_limiter)

declare sampling_loop.simps [simp del]

text \<open>
  Lines 221 to 233: the buffer is \<open>block_size\<close> zero bytes, and the limiter is
  \<open>Math.ceil(total_size / block_size) * 2\<close>.
\<close>

definition budget :: "nat \<Rightarrow> nat \<Rightarrow> nat" where
  "budget total_size block_size =
     nat \<lceil>(of_nat total_size :: rat) / of_nat block_size\<rceil> * 2"

definition initial_state :: "nat \<Rightarrow> nat \<Rightarrow> loop_state" where
  "initial_state block_size total_size =
     \<lparr>read_buffer = replicate block_size 0,
      built_contents = [],
      concatenated_text_length = 0,
      loop_limiter = budget total_size block_size,
      iteration = 0,
      fragments = []\<rparr>"

definition sampling :: "world \<Rightarrow> jsstring \<Rightarrow> nat \<Rightarrow> nat \<Rightarrow> error + loop_state" where
  "sampling w base_path block_size total_size =
     sampling_loop w base_path block_size total_size (initial_state block_size total_size)"

text \<open>
  With a size that is \<open>NaN\<close> the limiter is \<open>NaN\<close>, the test \<open>loop_limiter > 0\<close> is false
  at once and the loop body never runs: the contents stay empty.
\<close>

fun contents :: "world \<Rightarrow> jsstring \<Rightarrow> jsnum \<Rightarrow> jsnum \<Rightarrow> error + jsstring" where
  "contents w base_path (Num b) (Num t) =
     (case sampling w base_path (nat b) (nat t) of
        Inl e \<Rightarrow> Inl e
      | Inr st \<Rightarrow> Inr (built_contents st))"
| "contents w base_path _ _ = Inr []"

section \<open>The page and the request (lines 143 to 335)\<close>

definition page :: "jsstring \<Rightarrow> jsstring" where
  \<open>page built =
     lit ''<!DOCTYPE html>'' @ [LF]
     @ lit ''<html lang="en">'' @ [LF]
     @ lit ''    <head>'' @ [LF]
     @ lit ''        <meta charset="UTF-8">'' @ [LF]
     @ lit ''        <title>Replicant EPHI</title>'' @ [LF]
     @ lit ''        <link rel="stylesheet" href="/css/style.css">'' @ [LF]
     @ lit ''    </head>'' @ [LF]
     @ lit ''    <body>'' @ [LF]
     @ lit ''        <div id="container"><p>'' @ built @ lit ''</p></div>'' @ [LF]
     @ lit ''    </body>'' @ [LF]
     @ lit ''</html>''\<close>

definition failure_message :: jsstring where
  "failure_message =
     lit ''Replicant data could not be loaded. Please contact a system administrator.''"

text \<open>
  What a request does, in order: the calls of \<open>fs.statSync\<close>, \<open>fs.openSync\<close> and
  \<open>fs.closeSync\<close> with their outcome, the lines written with \<open>console.log\<close> and
  \<open>console.error\<close>, and the call of \<open>r.return\<close>. The reads change nothing outside
  the script and are not recorded.
\<close>

datatype outcome = Returns | Throws

datatype log_message =
    ValidatedBlockSize jsnum
  | ValidatedTotalSize jsnum
  | OpenedFd
  | ClosedFd

datatype event =
    StatSync outcome
  | OpenSync outcome
  | CloseSync outcome
  | ConsoleLog log_message
  | ConsoleError error
  | ConsoleErrorUnableToClose
  | Return nat jsstring

text \<open>
  The \<open>try\<close> block: the events up to its end or up to the exception, whether \<open>fd\<close> has
  been assigned, and the page or the exception.
\<close>

definition try_block :: "world \<Rightarrow> variables \<Rightarrow> event list \<times> bool \<times> (error + jsstring)" where
  "try_block w v =
     (case validate v of
        Inl e \<Rightarrow> ([], False, Inl e)
      | Inr cfg \<Rightarrow>
          if stat_throws w then ([StatSync Throws], False, Inl SystemError)
          else if length (corpus_bytes w) = 0
          then ([StatSync Returns], False,
                Inl (Error ''random_content() error: corpus file size is empty''))
          else
            let (block_size, total_size) = effective_sizes (length (corpus_bytes w)) cfg;
                validated = [StatSync Returns, ConsoleLog (ValidatedBlockSize block_size),
                             ConsoleLog (ValidatedTotalSize total_size)]
            in if open_throws w then (validated @ [OpenSync Throws], False, Inl SystemError)
               else
                 let opened = validated @ [OpenSync Returns, ConsoleLog OpenedFd]
                 in if alloc_throws w block_size then (opened, True, Inl SystemError)
                    else
                      (case contents w (cfg_base_path cfg) block_size total_size of
                         Inl e \<Rightarrow> (opened, True, Inl e)
                       | Inr built \<Rightarrow> (opened, True, Inr (page built))))"

text \<open>The \<open>catch\<close> and \<open>finally\<close> blocks around it.\<close>

definition random_content :: "world \<Rightarrow> variables \<Rightarrow> event list" where
  "random_content w v =
     (let (events, fd_defined, result) = try_block w v;
          returned =
            (case result of
               Inr body \<Rightarrow> [Return 200 body]
             | Inl e \<Rightarrow> [ConsoleError e, Return 500 failure_message]);
          closing =
            (if fd_defined then
               (if close_throws w then [CloseSync Throws, ConsoleErrorUnableToClose]
                else [CloseSync Returns, ConsoleLog ClosedFd])
             else [])
      in events @ returned @ closing)"

text \<open>The calls of \<open>r.return\<close> in a run, in order.\<close>

fun responses :: "event list \<Rightarrow> (nat \<times> jsstring) list" where
  "responses [] = []"
| "responses (Return status body # es) = (status, body) # responses es"
| "responses (_ # es) = responses es"

section \<open>Example worlds\<close>

text \<open>
  A decoder that agrees with UTF-8 on the bytes below 128, and printers for
  \<open>x.toString(36)\<close> with \<open>x\<close> in \<open>[0, 1)\<close>: \<open>"0"\<close> for zero, otherwise \<open>"0."\<close> and the
  digits. \<open>expand36 n\<close> gives the exact base-36 expansion cut after \<open>n\<close> digits.
  \<open>shortest36\<close> gives the shortest base-36 fraction that reads back as the same double,
  for a double \<open>m / 2 ^ 52\<close> in \<open>[1/2, 1)\<close>, where the doubles lie \<open>1 / 2 ^ 53\<close> apart:
  with \<open>n\<close> digits the nearest fraction is \<open>r / 36 ^ n\<close>, \<open>r\<close> being \<open>m * 36 ^ n / 2 ^ 52\<close>
  rounded, and the first \<open>n\<close> for which it is nearer to the double than \<open>1 / 2 ^ 54\<close> is
  taken.
\<close>

definition ascii_text :: "byte list \<Rightarrow> jsstring" where
  "ascii_text bytes = map unat bytes"

definition digit36 :: "nat \<Rightarrow> nat" where
  "digit36 d = lit ''0123456789abcdefghijklmnopqrstuvwxyz'' ! (d mod 36)"

definition print36 :: "(rat \<Rightarrow> nat list) \<Rightarrow> rat \<Rightarrow> jsstring" where
  "print36 digits x = (if x = 0 then lit ''0'' else lit ''0.'' @ map digit36 (digits x))"

fun base36_digits :: "nat \<Rightarrow> nat \<Rightarrow> nat list" where
  "base36_digits 0 r = []"
| "base36_digits (Suc n) r = base36_digits n (r div 36) @ [r mod 36]"

function shortest36 :: "nat \<Rightarrow> int \<Rightarrow> nat list" where
  "shortest36 n m =
     (if 16 < n then []
      else let r = (2 * m * 36 ^ n + 2 ^ 52) div 2 ^ 53
           in if \<bar>r * 2 ^ 52 - m * 36 ^ n\<bar> * 4 < 36 ^ n then base36_digits n (nat r)
              else shortest36 (Suc n) m)"
  by pat_completeness auto
termination
  by (relation "measure (\<lambda>(n, m). 17 - n)") auto

declare shortest36.simps [simp del]

fun expand36 :: "nat \<Rightarrow> rat \<Rightarrow> nat list" where
  "expand36 0 x = []"
| "expand36 (Suc n) x =
     (if x = 0 then []
      else nat \<lfloor>x * 36\<rfloor> # expand36 n (x * 36 - of_int \<lfloor>x * 36\<rfloor>))"

definition quiet_world :: "byte list \<Rightarrow> (nat \<Rightarrow> rat) \<Rightarrow> world" where
  "quiet_world bytes rnd =
     \<lparr>corpus_bytes = bytes, stat_throws = False, open_throws = False,
      alloc_throws = (\<lambda>_. False), read_throws = (\<lambda>_ _. False), close_throws = False,
      utf8 = ascii_text, math_random = rnd, toString36 = print36 (expand36 11)\<rparr>"

definition request :: "jsstring \<Rightarrow> jsstring \<Rightarrow> variables" where
  "request block_text total_text =
     [''base_path'' \<mapsto> lit ''/ephi'',
      ''corpus'' \<mapsto> lit ''/etc/nginx/data/bladerunner.txt'',
      ''block_size'' \<mapsto> block_text,
      ''total_size'' \<mapsto> total_text]"

text \<open>
  A corpus of the six bytes \<open><"&>ab\<close>; the first pass reads at offset 0, the second at
  offset 4 and wraps around.
\<close>

definition markup_world :: world where
  "markup_world =
     quiet_world [60, 34, 38, 62, 97, 98]
       (\<lambda>k. if k = 2 then 2 / 3 else if k = 1 then 1 / 36 else 0)"

text \<open>A corpus of four line feeds.\<close>

definition newline_world :: world where
  "newline_world = quiet_world [10, 10, 10, 10] (\<lambda>k. 1 / 2)"

text \<open>The corpus of \<open>markup_world\<close>, with every read and the close throwing.\<close>

definition failing_world :: world where
  "failing_world = markup_world\<lparr>read_throws := (\<lambda>i k. True), close_throws := True\<rparr>"

text \<open>A corpus of the two bytes \<open>ab\<close>, with \<open>Math.random()\<close> returning 0 at every call.\<close>

definition zero_random_world :: world where
  "zero_random_world = quiet_world [97, 98] (\<lambda>k. 0)"

text \<open>
  The same corpus, with \<open>Math.random()\<close> returning 0 for the offset and the double
  \<open>3834218238251763 / 2 ^ 52\<close> (0.8513674739089623) for the identifier, printed with the
  shortest digits.
\<close>

definition undefined_world :: world where
  "undefined_world =
     (quiet_world [97, 98] (\<lambda>k. if k = 1 then 3834218238251763 / 4503599627370496 else 0))
       \<lparr>toString36 := print36 (\<lambda>x. shortest36 1 \<lfloor>x * 2 ^ 52\<rfloor>)\<rparr>"

section \<open>Properties of the normalization\<close>

lemma crlf_unit_no_LF: "LF \<notin> set s \<Longrightarrow> crlf_unit s = None"
  by (induction s) auto

lemma replace_newlines_no_LF: "LF \<notin> set s \<Longrightarrow> replace_newlines s = s"
  by (induction s) (auto simp: crlf_unit_no_LF)

lemma LF_notin_replace_newlines: "LF \<notin> set (replace_newlines s)"
proof (induction s rule: replace_newlines.induct)
  case 1
  show ?case by simp
next
  case (2 c cs)
  show ?case
  proof (cases "crlf_unit (c # cs)")
    case None
    then have "c \<noteq> LF" by (auto split: if_splits)
    with None 2 show ?thesis by simp
  next
    case (Some r)
    with 2 show ?thesis by simp
  qed
qed

lemma set_replace_spaces: "set (replace_spaces s) \<subseteq> set s"
proof (induction s rule: replace_spaces.induct)
  case 1
  show ?case by simp
next
  case (2 c cs)
  show ?case
  proof (cases "c = SP")
    case True
    have "set (dropWhile (\<lambda>x. x = SP) cs) \<subseteq> set cs"
      by (auto dest: set_dropWhileD)
    with 2 True show ?thesis by auto
  next
    case False
    with 2 show ?thesis by auto
  qed
qed

lemma replace_spaces_head:
  "t = [] \<or> hd t \<noteq> SP \<Longrightarrow> dropWhile (\<lambda>x. x = SP) (replace_spaces t) = replace_spaces t"
  by (cases t) auto

lemma dropWhile_head: "dropWhile P xs = [] \<or> \<not> P (hd (dropWhile P xs))"
  by (metis hd_dropWhile)

lemma replace_spaces_idem: "replace_spaces (replace_spaces s) = replace_spaces s"
proof (induction s rule: replace_spaces.induct)
  case 1
  show ?case by simp
next
  case (2 c cs)
  show ?case
  proof (cases "c = SP")
    case True
    let ?t = "dropWhile (\<lambda>x. x = SP) cs"
    have "?t = [] \<or> hd ?t \<noteq> SP" using dropWhile_head [of "\<lambda>x. x = SP" cs] by simp
    then have "dropWhile (\<lambda>x. x = SP) (replace_spaces ?t) = replace_spaces ?t"
      by (rule replace_spaces_head)
    with 2 True show ?thesis by simp
  next
    case False
    with 2 show ?thesis by simp
  qed
qed

text \<open>
  Claim C8. Normalization is idempotent: for every string, the newline-run collapse followed
  by the space-run collapse, applied twice, gives what one application gives.
\<close>

theorem normalization_idempotent: "normalize_line (normalize_line s) = normalize_line s"
proof -
  have "LF \<notin> set (replace_spaces (replace_newlines s))"
    using set_replace_spaces [of "replace_newlines s"] LF_notin_replace_newlines [of s] by auto
  then have "replace_newlines (replace_spaces (replace_newlines s)) = replace_spaces (replace_newlines s)"
    by (rule replace_newlines_no_LF)
  then show ?thesis by (simp add: normalize_line_def replace_spaces_idem)
qed


lemma crlf_unit_seq: "crlf_unit (replicate k CR @ LF # v) = Some v"
  by (induction k) auto

lemma crlf_unit_append: "crlf_unit s = Some r \<Longrightarrow> crlf_unit (s @ w) = Some (r @ w)"
  by (induction s) (auto split: if_splits)

lemma crlf_more_runs: "crlf_unit v = None \<Longrightarrow> crlf_more (concat (map crlf_seq ks) @ v) = v"
proof (induction ks)
  case Nil
  then show ?case by simp
next
  case (Cons k ks)
  have "crlf_unit (concat (map crlf_seq (k # ks)) @ v) = Some (concat (map crlf_seq ks) @ v)"
    using crlf_unit_seq [of k "concat (map crlf_seq ks) @ v"] by (simp add: crlf_seq_def)
  with Cons show ?case by simp
qed

lemma replace_newlines_unfold:
  "s \<noteq> [] \<Longrightarrow> replace_newlines s =
     (case crlf_unit s of
        Some r \<Rightarrow> SP # replace_newlines (crlf_more r)
      | None \<Rightarrow> hd s # replace_newlines (tl s))"
  by (cases s) (simp_all del: crlf_unit.simps split: option.split)

lemma replace_newlines_run:
  assumes "crlf_unit v = None"
  shows "replace_newlines (concat (map crlf_seq (k # ks)) @ v) = SP # replace_newlines v"
proof -
  let ?s = "concat (map crlf_seq (k # ks)) @ v"
  have ne: "?s \<noteq> []" by (simp add: crlf_seq_def)
  have "crlf_unit ?s = Some (concat (map crlf_seq ks) @ v)"
    using crlf_unit_seq [of k "concat (map crlf_seq ks) @ v"] by (simp add: crlf_seq_def)
  then show ?thesis
    using replace_newlines_unfold [OF ne] crlf_more_runs [OF assms, of ks] by simp
qed

lemma crlf_unit_None_append:
  "crlf_unit s = None \<Longrightarrow> s \<noteq> [] \<Longrightarrow> last s \<noteq> CR \<Longrightarrow> last s \<noteq> LF \<Longrightarrow> crlf_unit (s @ w) = None"
  by (induction s) (auto split: if_splits)

lemma crlf_unit_last:
  "crlf_unit s = Some r \<Longrightarrow> last s \<noteq> LF \<Longrightarrow> r \<noteq> [] \<and> last r = last s"
  by (induction s) (auto split: if_splits)

lemma crlf_more_append:
  "s \<noteq> [] \<Longrightarrow> last s \<noteq> CR \<Longrightarrow> last s \<noteq> LF \<Longrightarrow>
     crlf_more (s @ w) = crlf_more s @ w \<and> crlf_more s \<noteq> [] \<and> last (crlf_more s) = last s"
proof (induction s rule: crlf_more.induct)
  case (1 s)
  show ?case
  proof (cases "crlf_unit s")
    case None
    with 1 crlf_unit_None_append [of s w] show ?thesis by simp
  next
    case (Some r)
    from crlf_unit_last [OF Some] 1 have r: "r \<noteq> []" "last r = last s" by auto
    from crlf_unit_append [OF Some] have "crlf_unit (s @ w) = Some (r @ w)" .
    with Some 1 r show ?thesis by simp
  qed
qed

lemma replace_newlines_append:
  "u = [] \<or> (last u \<noteq> CR \<and> last u \<noteq> LF) \<Longrightarrow>
     replace_newlines (u @ w) = replace_newlines u @ replace_newlines w"
proof (induction u rule: replace_newlines.induct)
  case 1
  show ?case by simp
next
  case (2 c cs)
  then have l: "last (c # cs) \<noteq> CR" "last (c # cs) \<noteq> LF" by auto
  show ?case
  proof (cases "crlf_unit (c # cs)")
    case None
    have n: "crlf_unit ((c # cs) @ w) = None"
      using crlf_unit_None_append [OF None _ l] by simp
    have "cs = [] \<or> (last cs \<noteq> CR \<and> last cs \<noteq> LF)" using l by (auto split: if_splits)
    with 2(1) [OF None] have "replace_newlines (cs @ w) = replace_newlines cs @ replace_newlines w" by simp
    with None n show ?thesis by simp
  next
    case (Some r)
    from crlf_unit_last [OF Some l(2)] l have r: "r \<noteq> []" "last r \<noteq> CR" "last r \<noteq> LF" by auto
    from crlf_more_append [OF r, of w]
    have m: "crlf_more (r @ w) = crlf_more r @ w" "crlf_more r \<noteq> []" "last (crlf_more r) = last r" by auto
    have "replace_newlines (crlf_more r @ w) = replace_newlines (crlf_more r) @ replace_newlines w"
      using 2(2) [OF Some] m r by simp
    moreover have "crlf_unit ((c # cs) @ w) = Some (r @ w)" using crlf_unit_append [OF Some] .
    ultimately show ?thesis using Some m by simp
  qed
qed

lemma last_dropWhile: "dropWhile P xs \<noteq> [] \<Longrightarrow> last (dropWhile P xs) = last xs"
  by (induction xs) (auto split: if_splits)

lemma replace_spaces_append:
  "u = [] \<or> last u \<noteq> SP \<Longrightarrow> replace_spaces (u @ w) = replace_spaces u @ replace_spaces w"
proof (induction u rule: replace_spaces.induct)
  case 1
  show ?case by simp
next
  case (2 c cs)
  show ?case
  proof (cases "c = SP")
    case True
    with 2(3) have cs: "cs \<noteq> []" "last cs \<noteq> SP" by (auto split: if_splits)
    then have "last cs \<in> set cs" by simp
    with cs have d: "dropWhile (\<lambda>x. x = SP) (cs @ w) = dropWhile (\<lambda>x. x = SP) cs @ w"
      by (intro dropWhile_append1) auto
    have "dropWhile (\<lambda>x. x = SP) cs \<noteq> []" using cs \<open>last cs \<in> set cs\<close>
      by (metis (mono_tags, lifting) dropWhile_eq_Nil_conv)
    with last_dropWhile [of "\<lambda>x. x = SP" cs] cs
    have "dropWhile (\<lambda>x. x = SP) cs = [] \<or> last (dropWhile (\<lambda>x. x = SP) cs) \<noteq> SP" by simp
    from 2(1) [OF True this] d True show ?thesis by simp
  next
    case False
    with 2(3) have "cs = [] \<or> last cs \<noteq> SP" by (auto split: if_splits)
    from 2(2) [OF False this] False show ?thesis by simp
  qed
qed

lemma replace_spaces_run:
  "v = [] \<or> hd v \<noteq> SP \<Longrightarrow> replace_spaces (replicate (Suc n) SP @ v) = SP # replace_spaces v"
proof -
  assume v: "v = [] \<or> hd v \<noteq> SP"
  have "dropWhile (\<lambda>x. x = SP) (replicate n SP @ v) = dropWhile (\<lambda>x. x = SP) v"
    by (induction n) auto
  also have "\<dots> = v" using v by (cases v) auto
  finally show ?thesis by simp
qed


text \<open>
  Claim C7. The normalization maps every run of carriage-return/line-feed sequences to a single
  space and every run of spaces to a single space. A sequence is what the pattern
  \<^verbatim>\<open>\r*\n\<close> matches; the run is a whole one when no carriage return or line feed
  stands before it and no further sequence behind it, and likewise for the spaces.
\<close>

theorem normalization_collapses_runs:
  assumes "u = [] \<or> (last u \<noteq> CR \<and> last u \<noteq> LF)"
    and "crlf_unit v = None"
    and "u' = [] \<or> last u' \<noteq> SP"
    and "v' = [] \<or> hd v' \<noteq> SP"
  shows "replace_newlines (u @ concat (map crlf_seq (k # ks)) @ v)
           = replace_newlines u @ SP # replace_newlines v
       \<and> replace_spaces (u' @ replicate (Suc n) SP @ v')
           = replace_spaces u' @ SP # replace_spaces v'
       \<and> normalize_line s = replace_spaces (replace_newlines s)"
proof -
  have "replace_newlines (u @ concat (map crlf_seq (k # ks)) @ v)
          = replace_newlines u @ replace_newlines (concat (map crlf_seq (k # ks)) @ v)"
    using assms(1) by (rule replace_newlines_append)
  also have "replace_newlines (concat (map crlf_seq (k # ks)) @ v) = SP # replace_newlines v"
    using assms(2) by (rule replace_newlines_run)
  finally have newlines: "replace_newlines (u @ concat (map crlf_seq (k # ks)) @ v)
          = replace_newlines u @ SP # replace_newlines v" .
  have "replace_spaces (u' @ replicate (Suc n) SP @ v')
          = replace_spaces u' @ replace_spaces (replicate (Suc n) SP @ v')"
    using assms(3) by (rule replace_spaces_append)
  also have "replace_spaces (replicate (Suc n) SP @ v') = SP # replace_spaces v'"
    using assms(4) by (rule replace_spaces_run)
  finally have spaces: "replace_spaces (u' @ replicate (Suc n) SP @ v')
          = replace_spaces u' @ SP # replace_spaces v'" .
  from newlines spaces show ?thesis by (simp only: normalize_line_def simp_thms)
qed

theorem normalization_collapses_runs_witness:
  "replace_newlines (lit ''a'' @ concat (map crlf_seq [1, 0, 2]) @ lit ''b'') = lit ''a b''
   \<and> replace_spaces (lit ''a'' @ replicate 3 SP @ lit ''b'') = lit ''a b''
   \<and> normalize_line (lit ''a '' @ [CR, LF, LF] @ lit '' b'') = lit ''a b''"
proof -
  have "replace_newlines (lit ''a'' @ concat (map crlf_seq [1, 0, 2]) @ lit ''b'')
           = replace_newlines (lit ''a'') @ SP # replace_newlines (lit ''b'')
       \<and> replace_spaces (lit ''a'' @ replicate (Suc 2) SP @ lit ''b'')
           = replace_spaces (lit ''a'') @ SP # replace_spaces (lit ''b'')
       \<and> normalize_line (lit ''a '' @ [CR, LF, LF] @ lit '' b'')
           = replace_spaces (replace_newlines (lit ''a '' @ [CR, LF, LF] @ lit '' b''))"
    by (rule normalization_collapses_runs) (simp_all add: lit_def)
  then show ?thesis
    by (simp add: lit_def crlf_seq_def numeral_3_eq_3)
qed

section \<open>Properties of the reads and of the trimming\<close>

lemma readSync_length:
  "readSync w i k buffer offset len position = Inr (buffer', n) \<Longrightarrow> length buffer' = length buffer"
  by (auto simp: readSync_def Let_def split: if_splits)

lemma readSync_count:
  "readSync w i k buffer offset len position = Inr (buffer', n) \<Longrightarrow> n \<le> len"
  by (auto simp: readSync_def Let_def split: if_splits)

lemma read_block_length:
  "read_block w i buffer block_size read_offset = Inr buffer' \<Longrightarrow> length buffer' = length buffer"
  by (auto simp: read_block_def split: sum.splits prod.splits if_splits dest!: readSync_length)

lemma read_block_succeeds:
  assumes "\<not> read_throws w i 0" "\<not> read_throws w i 1" "length buffer = block_size"
  shows "\<exists>buffer'. read_block w i buffer block_size read_offset = Inr buffer'"
proof -
  obtain buffer1 n where r1: "readSync w i 0 buffer 0 block_size read_offset = Inr (buffer1, n)"
    using assms by (simp add: readSync_def Let_def)
  have l1: "length buffer1 = block_size" using readSync_length [OF r1] assms by simp
  have n: "n \<le> block_size" using readSync_count [OF r1] .
  obtain buffer2 m where "readSync w i 1 buffer1 n (block_size - n) 0 = Inr (buffer2, m)"
    using assms l1 n by (simp add: readSync_def Let_def)
  with r1 show ?thesis by (simp add: read_block_def)
qed

lemma read_block_wraps:
  assumes "\<not> read_throws w i 0" "\<not> read_throws w i 1" "length buffer = block_size"
    and "block_size \<le> length (corpus_bytes w)"
  shows "read_block w i buffer block_size read_offset
           = Inr (take block_size (drop read_offset (corpus_bytes w) @ corpus_bytes w))"
proof -
  define f where "f = corpus_bytes w"
  define d where "d = take block_size (drop read_offset f)"
  define n where "n = length d"
  define b1 where "b1 = d @ drop n buffer"
  have n: "n \<le> block_size" by (simp add: n_def d_def)
  have l1: "length b1 = block_size" using assms(3) n by (simp add: b1_def n_def)
  have r1: "readSync w i 0 buffer 0 block_size read_offset = Inr (b1, n)"
    using assms(1,3) by (simp add: readSync_def Let_def b1_def n_def d_def f_def)
  show ?thesis
  proof (cases "n < block_size")
    case False
    with n have "n = block_size" by simp
    then have "b1 = d" using assms(3) by (simp add: b1_def)
    moreover have "take block_size (drop read_offset f @ f) = d"
      using \<open>n = block_size\<close> by (simp add: d_def n_def)
    ultimately show ?thesis using r1 False by (simp add: read_block_def f_def)
  next
    case True
    then have d: "d = drop read_offset f" "length f - read_offset = n"
      by (auto simp: d_def n_def)
    have t: "length (take (block_size - n) f) = block_size - n"
      using assms(4) by (simp add: f_def)
    have "take n b1 = d" by (simp add: b1_def n_def)
    moreover have "drop (n + (block_size - n)) b1 = []" using l1 n by simp
    ultimately have "readSync w i 1 b1 n (block_size - n) 0
            = Inr (d @ take (block_size - n) f, block_size - n)"
      using assms(2) l1 n t unfolding readSync_def Let_def f_def [symmetric] by simp
    with r1 True have "read_block w i buffer block_size read_offset
            = Inr (d @ take (block_size - n) f)"
      by (simp add: read_block_def)
    moreover have "take block_size (drop read_offset f @ f) = d @ take (block_size - n) f"
      using d n by simp
    ultimately show ?thesis by (simp add: f_def)
  qed
qed

lemma read_offset_in_range:
  assumes "0 \<le> x" "x < 1" "0 < n"
  shows "nat \<lfloor>x * of_nat n\<rfloor> < (n::nat)"
proof -
  have "x * of_nat n < of_nat n" using assms by simp
  then have "\<lfloor>x * of_nat n\<rfloor> < int n" by (simp add: floor_less_iff)
  then show ?thesis using assms by simp
qed

lemma slice_trim:
  assumes "text_length \<le> total_size" "total_size < text_length + length l"
  shows "slice l 0 (int total_size - (int text_length + int (length l)))
           = take (total_size - text_length) l"
proof -
  have "nat (max (int (length l) + (int total_size - (int text_length + int (length l)))) 0)
          = total_size - text_length"
    using assms by simp
  then show ?thesis using assms by (simp add: slice_def Let_def)
qed

lemma trim_line_exact:
  assumes "text_length \<le> total_size" "total_size < text_length + length l"
  shows "trim_line total_size text_length l = (take (total_size - text_length) l, total_size)"
    and "length (take (total_size - text_length) l) = total_size - text_length"
  using assms by (simp_all add: trim_line_def slice_trim)

lemma trim_line_sum:
  assumes "text_length \<le> total_size" "trim_line total_size text_length l = (l', text_length')"
  shows "text_length + length l' = text_length' \<and> text_length' \<le> total_size"
proof (cases "total_size < text_length + length l")
  case True
  with assms trim_line_exact [OF assms(1) True] show ?thesis by auto
next
  case False
  with assms show ?thesis by (auto simp: trim_line_def)
qed

section \<open>Properties of the sampling loop\<close>

lemma loop_body_step:
  assumes "loop_body w base_path block_size total_size st = Inr st'"
    and "concatenated_text_length st \<le> total_size"
  shows "\<exists>fragment. fragments st' = fragments st @ [fragment]
           \<and> built_contents st' = built_contents st @ anchor base_path fragment
           \<and> concatenated_text_length st' = concatenated_text_length st + length (snd fragment)"
    and "concatenated_text_length st' \<le> total_size"
    and "iteration st' = iteration st + 1"
    and "length (read_buffer st') = length (read_buffer st)"
proof -
  from assms(1) obtain buffer where s: "sample w (iteration st) (read_buffer st) block_size = Inr buffer"
    by (auto simp: loop_body_def split: sum.splits)
  obtain l' n where t: "trim_line total_size (concatenated_text_length st)
      (normalize_line (utf8 w buffer)) = (l', n)"
    by (cases "trim_line total_size (concatenated_text_length st) (normalize_line (utf8 w buffer))")
  from trim_line_sum [OF assms(2) t]
  have n: "concatenated_text_length st + length l' = n" "n \<le> total_size" by auto
  from assms(1) s t have st': "st' = \<lparr>read_buffer = buffer,
      built_contents = built_contents st
         @ anchor base_path (page_id w (math_random w (2 * iteration st + 1)), l'),
      concatenated_text_length = n, loop_limiter = loop_limiter st - 1,
      iteration = iteration st + 1,
      fragments = fragments st @ [(page_id w (math_random w (2 * iteration st + 1)), l')]\<rparr>"
    by (simp add: loop_body_def Let_def)
  show "\<exists>fragment. fragments st' = fragments st @ [fragment]
           \<and> built_contents st' = built_contents st @ anchor base_path fragment
           \<and> concatenated_text_length st' = concatenated_text_length st + length (snd fragment)"
    using st' n by simp
  show "concatenated_text_length st' \<le> total_size" using st' n by simp
  show "iteration st' = iteration st + 1" using st' by simp
  show "length (read_buffer st') = length (read_buffer st)"
    using st' s read_block_length by (simp add: sample_def)
qed

lemma sampling_loop_invariant:
  assumes "sampling_loop w base_path block_size total_size st = Inr st'"
    and "built_contents st = concat (map (anchor base_path) (fragments st))"
    and "sum_list (map (\<lambda>fragment. length (snd fragment)) (fragments st)) = concatenated_text_length st"
    and "concatenated_text_length st \<le> total_size"
    and "length (fragments st) = iteration st"
  shows "built_contents st' = concat (map (anchor base_path) (fragments st'))
       \<and> sum_list (map (\<lambda>fragment. length (snd fragment)) (fragments st')) = concatenated_text_length st'
       \<and> concatenated_text_length st' \<le> total_size
       \<and> (concatenated_text_length st' = total_size \<or> loop_limiter st' = 0)
       \<and> length (fragments st') = iteration st'
       \<and> iteration st' + loop_limiter st' = iteration st + loop_limiter st
       \<and> length (read_buffer st') = length (read_buffer st)"
  using assms
proof (induction w base_path block_size total_size st rule: sampling_loop.induct)
  case (1 w base_path block_size total_size st)
  show ?case
  proof (cases "concatenated_text_length st < total_size \<and> loop_limiter st > 0")
    case False
    with "1.prems"(1) have "st' = st" by (simp add: sampling_loop.simps)
    with False "1.prems" show ?thesis by auto
  next
    case True
    with "1.prems"(1) obtain st1 where
      b: "loop_body w base_path block_size total_size st = Inr st1"
      and r: "sampling_loop w base_path block_size total_size st1 = Inr st'"
      by (auto simp: sampling_loop.simps [of w base_path block_size total_size st]
          split: sum.splits)
    from loop_body_step [OF b "1.prems"(4)] obtain fragment where
      f: "fragments st1 = fragments st @ [fragment]"
         "built_contents st1 = built_contents st @ anchor base_path fragment"
         "concatenated_text_length st1 = concatenated_text_length st + length (snd fragment)"
      and le: "concatenated_text_length st1 \<le> total_size"
      and it: "iteration st1 = iteration st + 1"
      and bl: "length (read_buffer st1) = length (read_buffer st)"
      by blast
    have lim: "loop_limiter st1 = loop_limiter st - 1" using b by (rule loop_body_limiter)
    have p2: "built_contents st1 = concat (map (anchor base_path) (fragments st1))"
      using f "1.prems"(2) by simp
    have p3: "sum_list (map (\<lambda>fragment. length (snd fragment)) (fragments st1))
        = concatenated_text_length st1"
      using f "1.prems"(3) by simp
    have p5: "length (fragments st1) = iteration st1" using f it "1.prems"(5) by simp
    from "1.IH" [OF True b r p2 p3 le p5]
    have "built_contents st' = concat (map (anchor base_path) (fragments st'))
       \<and> sum_list (map (\<lambda>fragment. length (snd fragment)) (fragments st')) = concatenated_text_length st'
       \<and> concatenated_text_length st' \<le> total_size
       \<and> (concatenated_text_length st' = total_size \<or> loop_limiter st' = 0)
       \<and> length (fragments st') = iteration st'
       \<and> iteration st' + loop_limiter st' = iteration st1 + loop_limiter st1
       \<and> length (read_buffer st') = length (read_buffer st1)" .
    with it lim bl True show ?thesis by simp
  qed
qed

lemma sample_succeeds:
  assumes "\<forall>i k. \<not> read_throws w i k" "length buffer = block_size"
  shows "\<exists>buffer'. sample w i buffer block_size = Inr buffer'"
  unfolding sample_def using assms by (intro read_block_succeeds) auto

lemma loop_body_succeeds:
  assumes "\<forall>i k. \<not> read_throws w i k" "length (read_buffer st) = block_size"
  shows "\<exists>st'. loop_body w base_path block_size total_size st = Inr st'"
proof -
  from sample_succeeds [OF assms, of "iteration st"] obtain buffer where
    "sample w (iteration st) (read_buffer st) block_size = Inr buffer" by blast
  then show ?thesis by (simp add: loop_body_def Let_def split: prod.splits)
qed

lemma sampling_loop_succeeds:
  assumes "\<forall>i k. \<not> read_throws w i k" "length (read_buffer st) = block_size"
    and "concatenated_text_length st \<le> total_size"
  shows "\<exists>st'. sampling_loop w base_path block_size total_size st = Inr st'"
  using assms
proof (induction w base_path block_size total_size st rule: sampling_loop.induct)
  case (1 w base_path block_size total_size st)
  show ?case
  proof (cases "concatenated_text_length st < total_size \<and> loop_limiter st > 0")
    case False
    then show ?thesis
      by (auto simp: sampling_loop.simps [of w base_path block_size total_size st])
  next
    case True
    from loop_body_succeeds [OF "1.prems"(1,2)] obtain st1 where
      b: "loop_body w base_path block_size total_size st = Inr st1" by blast
    from loop_body_step [OF b "1.prems"(3)]
    have "length (read_buffer st1) = block_size" "concatenated_text_length st1 \<le> total_size"
      using "1.prems"(2) by auto
    from "1.IH" [OF True b "1.prems"(1) this] obtain st' where
      "sampling_loop w base_path block_size total_size st1 = Inr st'" by blast
    with True b show ?thesis
      by (simp add: sampling_loop.simps [of w base_path block_size total_size st])
  qed
qed

section \<open>Properties of a request\<close>

lemma responses_append: "responses (xs @ ys) = responses xs @ responses ys"
  by (induction xs rule: responses.induct) simp_all

lemma validate_block_size_positive:
  "validate v = Inr cfg \<Longrightarrow> cfg_block_size cfg = Num b \<Longrightarrow> 0 < b"
  by (auto simp: validate_def Let_def split: option.splits if_splits)

lemma validate_total_size_positive:
  "validate v = Inr cfg \<Longrightarrow> cfg_total_size cfg = Num t \<Longrightarrow> 0 < t"
  by (auto simp: validate_def Let_def split: option.splits if_splits)

lemma effective_sizes_Num:
  "effective_sizes n cfg = (Num bs, Num ts) \<Longrightarrow>
     \<exists>b t. cfg_block_size cfg = Num b \<and> cfg_total_size cfg = Num t
       \<and> bs = min (int n) b \<and> ts = min (int n) t"
  by (cases "cfg_block_size cfg"; cases "cfg_total_size cfg") (auto simp: effective_sizes_def)

lemma success_runs_loop:
  assumes "validate v = Inr cfg"
    and "effective_sizes (length (corpus_bytes w)) cfg = (Num bs, Num ts)"
    and "responses (random_content w v) = [(200, body)]"
  shows "\<exists>st. sampling w (cfg_base_path cfg) (nat bs) (nat ts) = Inr st
           \<and> body = page (built_contents st)"
  using assms
  by (auto simp: random_content_def try_block_def Let_def responses_append
      split: if_splits sum.splits)

lemma initial_state_fields:
  "read_buffer (initial_state block_size total_size) = replicate block_size 0"
  "built_contents (initial_state block_size total_size) = []"
  "concatenated_text_length (initial_state block_size total_size) = 0"
  "loop_limiter (initial_state block_size total_size) = budget total_size block_size"
  "iteration (initial_state block_size total_size) = 0"
  "fragments (initial_state block_size total_size) = []"
  by (simp_all add: initial_state_def)

lemma sampling_invariant:
  assumes "sampling w base_path block_size total_size = Inr st"
  shows "built_contents st = concat (map (anchor base_path) (fragments st))
       \<and> sum_list (map (\<lambda>fragment. length (snd fragment)) (fragments st)) = concatenated_text_length st
       \<and> concatenated_text_length st \<le> total_size
       \<and> (concatenated_text_length st = total_size \<or> loop_limiter st = 0)
       \<and> length (fragments st) = iteration st
       \<and> iteration st + loop_limiter st = budget total_size block_size"
  using sampling_loop_invariant [OF assms [unfolded sampling_def]]
  by (simp add: initial_state_fields)

text \<open>
  Claim C1. In every successful generation the lengths of the fragment texts (after the
  normalization, before the anchors are put around them) add up to at most the effective
  total size, and to exactly that size unless the loop ended with its limiter at zero; a
  line that would pass the total size is cut so that the sum lands on it. The sizes are
  numbers here: the request passed the validation and neither size is \<open>NaN\<close>.
\<close>

theorem accumulated_length_bounded:
  assumes "validate v = Inr cfg"
    and "effective_sizes (length (corpus_bytes w)) cfg = (Num bs, Num ts)"
    and "responses (random_content w v) = [(200, body)]"
  shows "\<exists>st. sampling w (cfg_base_path cfg) (nat bs) (nat ts) = Inr st
           \<and> body = page (built_contents st)
           \<and> built_contents st = concat (map (anchor (cfg_base_path cfg)) (fragments st))
           \<and> sum_list (map (\<lambda>fragment. length (snd fragment)) (fragments st))
               = concatenated_text_length st
           \<and> concatenated_text_length st \<le> nat ts
           \<and> (concatenated_text_length st = nat ts \<or> loop_limiter st = 0)
           \<and> (\<forall>text_length line_read.
                 text_length \<le> nat ts \<and> nat ts < text_length + length line_read \<longrightarrow>
                   trim_line (nat ts) text_length line_read
                     = (take (nat ts - text_length) line_read, nat ts)
                   \<and> text_length + length (take (nat ts - text_length) line_read) = nat ts)"
proof -
  from success_runs_loop [OF assms] obtain st where
    st: "sampling w (cfg_base_path cfg) (nat bs) (nat ts) = Inr st" "body = page (built_contents st)"
    by blast
  have "\<forall>text_length line_read.
          text_length \<le> nat ts \<and> nat ts < text_length + length line_read \<longrightarrow>
            trim_line (nat ts) text_length line_read
               = (take (nat ts - text_length) line_read, nat ts)
            \<and> text_length + length (take (nat ts - text_length) line_read) = nat ts"
    using trim_line_exact by auto
  with st sampling_invariant [OF st(1)] show ?thesis by blast
qed

lemma sampling_succeeds:
  assumes "\<forall>i k. \<not> read_throws w i k"
  shows "\<exists>st. sampling w base_path block_size total_size = Inr st"
  unfolding sampling_def
  by (rule sampling_loop_succeeds [OF assms]) (simp_all add: initial_state_fields)

text \<open>
  Claim C2. The loop makes at most \<open>ceil(total_size / block_size) * 2\<close> passes, with the
  effective sizes, and ends; ending with the limiter at zero is no error: when no call of
  the file system or of \<open>Buffer.alloc\<close> throws, the page built from what was gathered is
  returned with status 200.
\<close>

theorem iteration_budget:
  assumes "validate v = Inr cfg"
    and "effective_sizes (length (corpus_bytes w)) cfg = (Num bs, Num ts)"
    and "corpus_bytes w \<noteq> []" and "\<not> stat_throws w" and "\<not> open_throws w"
    and "\<not> alloc_throws w (Num bs)" and "\<forall>i k. \<not> read_throws w i k"
  shows "\<exists>st. sampling w (cfg_base_path cfg) (nat bs) (nat ts) = Inr st
           \<and> iteration st + loop_limiter st = budget (nat ts) (nat bs)
           \<and> iteration st \<le> nat \<lceil>(of_nat (nat ts) :: rat) / of_nat (nat bs)\<rceil> * 2
           \<and> length (fragments st) = iteration st
           \<and> responses (random_content w v) = [(200, page (built_contents st))]"
proof -
  from sampling_succeeds [OF assms(7)] obtain st where
    st: "sampling w (cfg_base_path cfg) (nat bs) (nat ts) = Inr st" by blast
  from sampling_invariant [OF st]
  have i: "iteration st + loop_limiter st = budget (nat ts) (nat bs)"
    "length (fragments st) = iteration st" by auto
  then have "iteration st \<le> nat \<lceil>(of_nat (nat ts) :: rat) / of_nat (nat bs)\<rceil> * 2"
    by (simp add: budget_def)
  moreover have "responses (random_content w v) = [(200, page (built_contents st))]"
    using assms(1-6) st
    by (simp add: random_content_def try_block_def Let_def responses_append)
  ultimately show ?thesis using st i by blast
qed

text \<open>
  Claim C3. The effective block size is the minimum of the configured block size and the
  length of the corpus, the effective total size the minimum of the configured total size
  and that length, so neither is above the length of the corpus. The configured sizes are
  the numbers the validation accepted or the defaults.
\<close>

theorem sizes_clamped:
  assumes "validate v = Inr cfg"
    and "cfg_block_size cfg = Num b" and "cfg_total_size cfg = Num t"
    and "\<not> stat_throws w" and "corpus_bytes w \<noteq> []"
  shows "effective_sizes (length (corpus_bytes w)) cfg
           = (Num (min (int (length (corpus_bytes w))) b),
              Num (min (int (length (corpus_bytes w))) t))
       \<and> min (int (length (corpus_bytes w))) b \<le> int (length (corpus_bytes w))
       \<and> min (int (length (corpus_bytes w))) t \<le> int (length (corpus_bytes w))
       \<and> ConsoleLog (ValidatedBlockSize (Num (min (int (length (corpus_bytes w))) b)))
           \<in> set (random_content w v)
       \<and> ConsoleLog (ValidatedTotalSize (Num (min (int (length (corpus_bytes w))) t)))
           \<in> set (random_content w v)"
proof -
  have e: "effective_sizes (length (corpus_bytes w)) cfg
           = (Num (min (int (length (corpus_bytes w))) b),
              Num (min (int (length (corpus_bytes w))) t))"
    using assms(2,3) by (simp add: effective_sizes_def)
  have "ConsoleLog (ValidatedBlockSize (Num (min (int (length (corpus_bytes w))) b)))
           \<in> set (random_content w v)
       \<and> ConsoleLog (ValidatedTotalSize (Num (min (int (length (corpus_bytes w))) t)))
           \<in> set (random_content w v)"
    using assms(1,4,5) e
    by (auto simp: random_content_def try_block_def Let_def split: sum.splits)
  with e show ?thesis by simp
qed

text \<open>
  Claim C4. In a pass of the loop the offset is below the length of the corpus, and when
  fewer than \<open>block_size\<close> bytes lie between it and the end of the file the rest is read
  from position 0 and put behind them: the bytes decoded are exactly \<open>block_size\<close> bytes,
  those from the offset to the end of the file followed by those from the start.
\<close>

theorem wraparound_read:
  assumes "0 \<le> math_random w (2 * i)" and "math_random w (2 * i) < 1"
    and "0 < block_size" and "block_size \<le> length (corpus_bytes w)"
    and "length buffer = block_size"
    and "\<not> read_throws w i 0" and "\<not> read_throws w i 1"
    and "read_offset = nat \<lfloor>math_random w (2 * i) * of_nat (length (corpus_bytes w))\<rfloor>"
  shows "read_offset < length (corpus_bytes w)
       \<and> (\<exists>bytes. sample w i buffer block_size = Inr bytes
             \<and> length bytes = block_size
             \<and> bytes = take block_size (drop read_offset (corpus_bytes w) @ corpus_bytes w)
             \<and> (length (corpus_bytes w) - read_offset < block_size \<longrightarrow>
                  bytes = drop read_offset (corpus_bytes w)
                    @ take (block_size - (length (corpus_bytes w) - read_offset)) (corpus_bytes w))
             \<and> (block_size \<le> length (corpus_bytes w) - read_offset \<longrightarrow>
                  bytes = take block_size (drop read_offset (corpus_bytes w)))
             \<and> (\<forall>st. iteration st = i \<and> read_buffer st = buffer \<longrightarrow>
                  (\<exists>st'. loop_body w base_path block_size total_size st = Inr st'
                     \<and> read_buffer st' = bytes
                     \<and> snd (last (fragments st'))
                         = fst (trim_line total_size (concatenated_text_length st)
                                  (normalize_line (utf8 w bytes))))))"
proof -
  let ?f = "corpus_bytes w"
  let ?bytes = "take block_size (drop read_offset ?f @ ?f)"
  have r: "read_offset < length ?f"
    unfolding assms(8) using assms(1,2,3,4) by (intro read_offset_in_range) auto
  have s: "sample w i buffer block_size = Inr ?bytes"
    unfolding sample_def assms(8) [symmetric]
    using assms(6,7,5,4) by (rule read_block_wraps)
  have l: "length ?bytes = block_size" using assms(4) by simp
  have a: "length ?f - read_offset < block_size \<longrightarrow>
        ?bytes = drop read_offset ?f @ take (block_size - (length ?f - read_offset)) ?f"
    by simp
  have b: "block_size \<le> length ?f - read_offset \<longrightarrow> ?bytes = take block_size (drop read_offset ?f)"
    by simp
  have c: "\<forall>st. iteration st = i \<and> read_buffer st = buffer \<longrightarrow>
                  (\<exists>st'. loop_body w base_path block_size total_size st = Inr st'
                     \<and> read_buffer st' = ?bytes
                     \<and> snd (last (fragments st'))
                         = fst (trim_line total_size (concatenated_text_length st)
                                  (normalize_line (utf8 w ?bytes))))"
    using s by (auto simp: loop_body_def Let_def split: prod.splits)
  from r s l a b c show ?thesis by blast
qed

section \<open>Example runs\<close>

lemma budget_code:
  "budget total_size block_size = nat (- (- int total_size div int block_size)) * 2"
proof -
  have "\<lceil>(of_nat total_size :: rat) / of_nat block_size\<rceil>
          = \<lceil>(of_int (int total_size) :: rat) / of_int (int block_size)\<rceil>"
    by simp
  also have "\<dots> = - (- int total_size div int block_size)"
    by (rule ceiling_divide_eq_div)
  finally show ?thesis by (simp add: budget_def)
qed

lemma quiet_world_fields:
  "corpus_bytes (quiet_world bytes rnd) = bytes"
  "stat_throws (quiet_world bytes rnd) = False"
  "open_throws (quiet_world bytes rnd) = False"
  "alloc_throws (quiet_world bytes rnd) x = False"
  "read_throws (quiet_world bytes rnd) i k = False"
  "close_throws (quiet_world bytes rnd) = False"
  "utf8 (quiet_world bytes rnd) = ascii_text"
  "math_random (quiet_world bytes rnd) = rnd"
  "toString36 (quiet_world bytes rnd) = print36 (expand36 11)"
  by (simp_all add: quiet_world_def)

lemmas parse_simps = validate_def request_def parseInt_def lit_def slice_from_def slice_def
  is_white_space_def is_digit_def digits_value_def Let_def

lemmas loop_simps = sampling_def initial_state_def budget_code lit_def
  sampling_loop.simps loop_body_def sample_def read_block_def readSync_def trim_line_def slice_def
  page_id_def print36_def digit36_def substring_def anchor_def link_target_def
  normalize_line_def ascii_text_def Let_def

lemma request_4_6:
  "validate (request (lit ''4'') (lit ''6''))
     = Inr \<lparr>cfg_base_path = lit ''/ephi/'', cfg_block_size = Num 4, cfg_total_size = Num 6\<rparr>"
  by (simp add: parse_simps)

lemma expand36_unit: "expand36 11 (1 / 36) = [1]"
  by (simp add: eval_nat_numeral)

lemma markup_sampling:
  \<open>sampling markup_world (lit ''/ephi/'') 4 6 =
     Inr \<lparr>read_buffer = [97, 98, 60, 34],
          built_contents = lit ''<a href="/ephi/1.html"><"&></a><a href="/ephi/.html">ab</a>'',
          concatenated_text_length = 6, loop_limiter = 2, iteration = 2,
          fragments = [(lit ''1'', lit ''<"&>''), ([], lit ''ab'')]\<rparr>\<close>
  by (simp add: loop_simps markup_world_def quiet_world_fields expand36_unit)

lemma markup_responses:
  \<open>responses (random_content markup_world (request (lit ''4'') (lit ''6'')))
     = [(200, page (lit ''<a href="/ephi/1.html"><"&></a><a href="/ephi/.html">ab</a>''))]\<close>
  by (simp add: request_4_6 markup_sampling random_content_def try_block_def
      effective_sizes_def markup_world_def [THEN arg_cong [of _ _ corpus_bytes]]
      markup_world_def [THEN arg_cong [of _ _ stat_throws]]
      markup_world_def [THEN arg_cong [of _ _ open_throws]]
      markup_world_def [THEN arg_cong [of _ _ alloc_throws]]
      markup_world_def [THEN arg_cong [of _ _ close_throws]] quiet_world_fields)

lemma markup_world_fields:
  "corpus_bytes markup_world = [60, 34, 38, 62, 97, 98]"
  "math_random markup_world = (\<lambda>k. if k = 2 then 2 / 3 else if k = 1 then 1 / 36 else 0)"
  "read_throws markup_world i k = False"
  by (simp_all add: markup_world_def quiet_world_fields)

theorem accumulated_length_bounded_witness:
  \<open>responses (random_content markup_world (request (lit ''4'') (lit ''6'')))
       = [(200, page (lit ''<a href="/ephi/1.html"><"&></a><a href="/ephi/.html">ab</a>''))]
   \<and> (\<exists>st. sampling markup_world (lit ''/ephi/'') 4 6 = Inr st
          \<and> map snd (fragments st) = [lit ''<"&>'', lit ''ab'']
          \<and> sum_list (map (\<lambda>fragment. length (snd fragment)) (fragments st)) = 6
          \<and> concatenated_text_length st = 6
          \<and> loop_limiter st = 2)\<close>
proof -
  have e: "effective_sizes (length (corpus_bytes markup_world))
      \<lparr>cfg_base_path = lit ''/ephi/'', cfg_block_size = Num 4, cfg_total_size = Num 6\<rparr>
        = (Num 4, Num 6)"
    by (simp add: effective_sizes_def markup_world_fields)
  from accumulated_length_bounded [OF request_4_6 e markup_responses]
  obtain st where st: "sampling markup_world (lit ''/ephi/'') 4 6 = Inr st"
    "sum_list (map (\<lambda>fragment. length (snd fragment)) (fragments st)) = concatenated_text_length st"
    "concatenated_text_length st = 6 \<or> loop_limiter st = 0"
    by auto
  from st(1) have "map snd (fragments st) = [lit ''<\"&>'', lit ''ab'']"
    "concatenated_text_length st = 6" "loop_limiter st = 2"
    by (auto simp: markup_sampling)
  with st markup_responses show ?thesis by auto
qed

lemma newline_world_fields:
  "corpus_bytes newline_world = [10, 10, 10, 10]"
  "math_random newline_world = (\<lambda>k. 1 / 2)"
  "stat_throws newline_world = False" "open_throws newline_world = False"
  "alloc_throws newline_world x = False" "read_throws newline_world i k = False"
  by (simp_all add: newline_world_def quiet_world_fields)

lemma request_4_4:
  "validate (request (lit ''4'') (lit ''4''))
     = Inr \<lparr>cfg_base_path = lit ''/ephi/'', cfg_block_size = Num 4, cfg_total_size = Num 4\<rparr>"
  by (simp add: parse_simps)

lemma expand36_half: "expand36 11 (1 / 2) = [18]"
  by (simp add: eval_nat_numeral)

lemma newline_sampling:
  \<open>sampling newline_world (lit ''/ephi/'') 4 4 =
     Inr \<lparr>read_buffer = [10, 10, 10, 10],
          built_contents = lit ''<a href="/ephi/i.html"> </a><a href="/ephi/i.html"> </a>'',
          concatenated_text_length = 2, loop_limiter = 0, iteration = 2,
          fragments = [(lit ''i'', lit '' ''), (lit ''i'', lit '' '')]\<rparr>\<close>
  by (simp add: loop_simps newline_world_def quiet_world_fields expand36_half)

theorem iteration_budget_witness:
  \<open>budget 4 4 = 2
   \<and> (\<exists>st. sampling newline_world (lit ''/ephi/'') 4 4 = Inr st
          \<and> iteration st = 2
          \<and> concatenated_text_length st = 2
          \<and> responses (random_content newline_world (request (lit ''4'') (lit ''4'')))
               = [(200, page (lit ''<a href="/ephi/i.html"> </a><a href="/ephi/i.html"> </a>''))])\<close>
proof -
  have e: "effective_sizes (length (corpus_bytes newline_world))
      \<lparr>cfg_base_path = lit ''/ephi/'', cfg_block_size = Num 4, cfg_total_size = Num 4\<rparr>
        = (Num 4, Num 4)"
    by (simp add: effective_sizes_def newline_world_fields)
  have "\<exists>st. sampling newline_world
            (cfg_base_path \<lparr>cfg_base_path = lit ''/ephi/'', cfg_block_size = Num 4, cfg_total_size = Num 4\<rparr>)
            (nat 4) (nat 4) = Inr st
           \<and> iteration st + loop_limiter st = budget (nat 4) (nat 4)
           \<and> iteration st \<le> nat \<lceil>(of_nat (nat 4) :: rat) / of_nat (nat 4)\<rceil> * 2
           \<and> length (fragments st) = iteration st
           \<and> responses (random_content newline_world (request (lit ''4'') (lit ''4'')))
                = [(200, page (built_contents st))]"
    by (rule iteration_budget [OF request_4_4 e]) (simp_all add: newline_world_fields)
  then obtain st where st: "sampling newline_world (lit ''/ephi/'') 4 4 = Inr st"
    "responses (random_content newline_world (request (lit ''4'') (lit ''4'')))
                = [(200, page (built_contents st))]"
    by auto
  from st(1) have "iteration st = 2" "concatenated_text_length st = 2"
    \<open>built_contents st = lit ''<a href="/ephi/i.html"> </a><a href="/ephi/i.html"> </a>''\<close>
    by (auto simp: newline_sampling)
  moreover have "budget 4 4 = 2" by (simp add: budget_code)
  ultimately show ?thesis using st by auto
qed

theorem sizes_clamped_witness:
  "effective_sizes (length (corpus_bytes (quiet_world (replicate 500 97) (\<lambda>k. 0))))
      \<lparr>cfg_base_path = lit ''/ephi/'', cfg_block_size = Num 80, cfg_total_size = Num 10000\<rparr>
     = (Num 80, Num 500)
   \<and> ConsoleLog (ValidatedTotalSize (Num 500))
       \<in> set (random_content (quiet_world (replicate 500 97) (\<lambda>k. 0))
                [''base_path'' \<mapsto> lit ''/ephi/'',
                 ''corpus'' \<mapsto> lit ''/etc/nginx/data/bladerunner.txt'',
                 ''total_size'' \<mapsto> lit ''10000''])"
proof -
  have v: "validate [''base_path'' \<mapsto> lit ''/ephi/'',
                 ''corpus'' \<mapsto> lit ''/etc/nginx/data/bladerunner.txt'',
                 ''total_size'' \<mapsto> lit ''10000'']
     = Inr \<lparr>cfg_base_path = lit ''/ephi/'', cfg_block_size = Num 80, cfg_total_size = Num 10000\<rparr>"
    by (simp add: parse_simps)
  from sizes_clamped [OF v, of 80 10000 "quiet_world (replicate 500 97) (\<lambda>k. 0)"]
  show ?thesis by (simp add: quiet_world_fields)
qed

theorem wraparound_read_witness:
  "sample markup_world 1 [60, 34, 38, 62] 4 = Inr [97, 98, 60, 34]
   \<and> nat \<lfloor>math_random markup_world (2 * 1) * of_nat (length (corpus_bytes markup_world))\<rfloor> = 4"
proof -
  have "nat \<lfloor>math_random markup_world (2 * 1) * of_nat (length (corpus_bytes markup_world))\<rfloor> = 4"
    by (simp add: markup_world_fields)
  from wraparound_read [of markup_world 1 4 "[60, 34, 38, 62]" 4 "[]" 6, OF _ _ _ _ _ _ _ this [symmetric]]
  show ?thesis by (simp add: markup_world_fields)
qed

lemma loop_body_close:
  "loop_body (w\<lparr>close_throws := c\<rparr>) base_path block_size total_size st
     = loop_body w base_path block_size total_size st"
  by (simp add: loop_body_def sample_def read_block_def readSync_def page_id_def)

lemma sampling_loop_close:
  "sampling_loop (w\<lparr>close_throws := c\<rparr>) base_path block_size total_size st
     = sampling_loop w base_path block_size total_size st"
proof (induction w base_path block_size total_size st rule: sampling_loop.induct)
  case (1 w base_path block_size total_size st)
  show ?case
  proof (cases "concatenated_text_length st < total_size \<and> loop_limiter st > 0")
    case False
    then show ?thesis
      by (auto simp: sampling_loop.simps [of _ base_path block_size total_size st])
  next
    case True
    show ?thesis
    proof (cases "loop_body w base_path block_size total_size st")
      case (Inl e)
      with True show ?thesis
        by (simp add: sampling_loop.simps [of _ base_path block_size total_size st] loop_body_close)
    next
      case (Inr st1)
      from "1.IH" [OF True Inr] True Inr show ?thesis
        by (simp add: sampling_loop.simps [of _ base_path block_size total_size st] loop_body_close)
    qed
  qed
qed

lemma contents_close:
  "contents (w\<lparr>close_throws := c\<rparr>) base_path bs ts = contents w base_path bs ts"
  by (cases bs; cases ts) (simp_all add: sampling_def sampling_loop_close)

lemma try_block_close: "try_block (w\<lparr>close_throws := c\<rparr>) v = try_block w v"
  by (simp add: try_block_def contents_close Let_def split: sum.split prod.split)

lemma try_block_events:
  assumes "try_block w v = (events, fd_defined, result)"
  shows "responses events = []" and "CloseSync Returns \<notin> set events"
    and "CloseSync Throws \<notin> set events" and "fd_defined \<longleftrightarrow> OpenSync Returns \<in> set events"
  using assms
  by (auto simp: try_block_def Let_def split: sum.splits if_splits prod.splits)

text \<open>
  Claim C9. On every path out of \<open>random_content\<close> the file descriptor, once
  \<open>fs.openSync\<close> has returned it, is closed: the run ends with the call of
  \<open>fs.closeSync\<close>, the only one, followed by one line of the log. When no descriptor was
  opened nothing is closed. Whether the close throws changes neither the status nor the
  body returned, and every run returns exactly once.
\<close>

theorem handle_closed_on_every_path:
  "(OpenSync Returns \<in> set (random_content w v) \<longrightarrow>
      (\<exists>before. random_content w v
           = before @ [CloseSync (if close_throws w then Throws else Returns),
                       if close_throws w then ConsoleErrorUnableToClose else ConsoleLog ClosedFd]
         \<and> OpenSync Returns \<in> set before
         \<and> CloseSync Returns \<notin> set before \<and> CloseSync Throws \<notin> set before))
   \<and> (OpenSync Returns \<notin> set (random_content w v) \<longrightarrow>
        CloseSync Returns \<notin> set (random_content w v)
        \<and> CloseSync Throws \<notin> set (random_content w v))
   \<and> responses (random_content (w\<lparr>close_throws := c\<rparr>) v) = responses (random_content w v)
   \<and> (\<exists>status body. responses (random_content w v) = [(status, body)])"
proof -
  obtain events fd_defined result where t: "try_block w v = (events, fd_defined, result)"
    by (cases "try_block w v")
  note e = try_block_events [OF t]
  define returned where "returned =
     (case result of Inr body \<Rightarrow> [Return 200 body]
      | Inl e \<Rightarrow> [ConsoleError e, Return 500 failure_message])"
  have r: "\<exists>status body. responses returned = [(status, body)]"
    "OpenSync Returns \<notin> set returned" "CloseSync Returns \<notin> set returned"
    "CloseSync Throws \<notin> set returned"
    by (auto simp: returned_def split: sum.splits)
  have run: "random_content w v = events @ returned @
      (if fd_defined then [CloseSync (if close_throws w then Throws else Returns),
                       if close_throws w then ConsoleErrorUnableToClose else ConsoleLog ClosedFd]
       else [])"
    using t by (simp add: random_content_def returned_def)
  have run': "random_content (w\<lparr>close_throws := c\<rparr>) v = events @ returned @
      (if fd_defined then [CloseSync (if c then Throws else Returns),
                       if c then ConsoleErrorUnableToClose else ConsoleLog ClosedFd]
       else [])"
    using t by (simp add: random_content_def returned_def try_block_close)
  show ?thesis
  proof (cases fd_defined)
    case True
    with e r run have "random_content w v
           = (events @ returned) @ [CloseSync (if close_throws w then Throws else Returns),
                       if close_throws w then ConsoleErrorUnableToClose else ConsoleLog ClosedFd]
         \<and> OpenSync Returns \<in> set (events @ returned)
         \<and> CloseSync Returns \<notin> set (events @ returned) \<and> CloseSync Throws \<notin> set (events @ returned)"
      by simp
    then have a: "\<exists>before. random_content w v
           = before @ [CloseSync (if close_throws w then Throws else Returns),
                       if close_throws w then ConsoleErrorUnableToClose else ConsoleLog ClosedFd]
         \<and> OpenSync Returns \<in> set before
         \<and> CloseSync Returns \<notin> set before \<and> CloseSync Throws \<notin> set before"
      by blast
    have b: "OpenSync Returns \<in> set (random_content w v)" using True e run by simp
    have c: "responses (random_content (w\<lparr>close_throws := c\<rparr>) v) = responses (random_content w v)"
      using True run run' by (simp add: responses_append)
    have d: "\<exists>status body. responses (random_content w v) = [(status, body)]"
      using True run e r by (auto simp: responses_append)
    from a b c d show ?thesis by blast
  next
    case False
    with e r run run' show ?thesis by (auto simp: responses_append)
  qed
qed

theorem handle_closed_on_every_path_witness:
  "random_content failing_world (request (lit ''4'') (lit ''6''))
     = [StatSync Returns, ConsoleLog (ValidatedBlockSize (Num 4)),
        ConsoleLog (ValidatedTotalSize (Num 6)), OpenSync Returns, ConsoleLog OpenedFd,
        ConsoleError SystemError, Return 500 failure_message,
        CloseSync Throws, ConsoleErrorUnableToClose]
   \<and> (\<exists>before. random_content failing_world (request (lit ''4'') (lit ''6''))
           = before @ [CloseSync Throws, ConsoleErrorUnableToClose]
         \<and> OpenSync Returns \<in> set before
         \<and> CloseSync Returns \<notin> set before \<and> CloseSync Throws \<notin> set before)
   \<and> responses (random_content (failing_world\<lparr>close_throws := False\<rparr>) (request (lit ''4'') (lit ''6'')))
       = [(500, failure_message)]
   \<and> random_content failing_world Map.empty
       = [ConsoleError (SyntaxError ''random_content() error: base_path argument missing''),
          Return 500 failure_message]
   \<and> CloseSync Returns \<notin> set (random_content failing_world Map.empty)
   \<and> CloseSync Throws \<notin> set (random_content failing_world Map.empty)"
proof -
  have s: "sampling failing_world (lit ''/ephi/'') 4 6 = Inl SystemError"
    by (simp add: failing_world_def sampling_def initial_state_def budget_code
        sampling_loop.simps loop_body_def sample_def read_block_def readSync_def)
  have run: "random_content failing_world (request (lit ''4'') (lit ''6''))
     = [StatSync Returns, ConsoleLog (ValidatedBlockSize (Num 4)),
        ConsoleLog (ValidatedTotalSize (Num 6)), OpenSync Returns, ConsoleLog OpenedFd,
        ConsoleError SystemError, Return 500 failure_message,
        CloseSync Throws, ConsoleErrorUnableToClose]"
    by (simp add: request_4_6 s random_content_def try_block_def effective_sizes_def
        failing_world_def [THEN arg_cong [of _ _ corpus_bytes]]
        failing_world_def [THEN arg_cong [of _ _ stat_throws]]
        failing_world_def [THEN arg_cong [of _ _ open_throws]]
        failing_world_def [THEN arg_cong [of _ _ alloc_throws]]
        failing_world_def [THEN arg_cong [of _ _ close_throws]]
        markup_world_def quiet_world_fields)
  have o: "OpenSync Returns \<in> set (random_content failing_world (request (lit ''4'') (lit ''6'')))"
    by (simp add: run)
  have c: "close_throws failing_world" by (simp add: failing_world_def)
  from handle_closed_on_every_path [of failing_world "request (lit ''4'') (lit ''6'')" False] o c
  have "(\<exists>before. random_content failing_world (request (lit ''4'') (lit ''6''))
           = before @ [CloseSync Throws, ConsoleErrorUnableToClose]
         \<and> OpenSync Returns \<in> set before
         \<and> CloseSync Returns \<notin> set before \<and> CloseSync Throws \<notin> set before)"
    and "responses (random_content (failing_world\<lparr>close_throws := False\<rparr>) (request (lit ''4'') (lit ''6'')))
       = responses (random_content failing_world (request (lit ''4'') (lit ''6'')))"
    by simp_all
  moreover have missing: "random_content failing_world Map.empty
       = [ConsoleError (SyntaxError ''random_content() error: base_path argument missing''),
          Return 500 failure_message]"
    by (simp add: random_content_def try_block_def validate_def)
  moreover have "OpenSync Returns \<notin> set (random_content failing_world Map.empty)"
    by (simp add: missing)
  with handle_closed_on_every_path [of failing_world Map.empty False]
  have "CloseSync Returns \<notin> set (random_content failing_world Map.empty)
        \<and> CloseSync Throws \<notin> set (random_content failing_world Map.empty)"
    by blast
  ultimately show ?thesis using run by simp
qed

lemma default_sizes:
  assumes "validate v = Inr cfg"
  shows "v ''block_size'' = None \<Longrightarrow> cfg_block_size cfg = Num 80"
    and "v ''total_size'' = None \<Longrightarrow> cfg_total_size cfg = Num 500"
  using assms by (auto simp: validate_def Let_def split: option.splits if_splits)

lemma non_positive_block_size_rejected:
  assumes "v ''base_path'' = Some bp" "bp \<noteq> []" "v ''corpus'' = Some c" "c \<noteq> []"
    and "v ''block_size'' = Some s" "parseInt s = Num n" "n \<le> 0"
  shows "random_content w v =
    [ConsoleError (RangeError ''random_content() error: block_size argument is not a positive integer''),
     Return 500 failure_message]"
  using assms by (simp add: random_content_def try_block_def validate_def Let_def)

lemma non_positive_total_size_rejected:
  assumes "v ''base_path'' = Some bp" "bp \<noteq> []" "v ''corpus'' = Some c" "c \<noteq> []"
    and "v ''block_size'' = None \<or> (\<exists>s n. v ''block_size'' = Some s \<and> parseInt s = Num n \<and> 0 < n)"
    and "v ''total_size'' = Some s" "parseInt s = Num n" "n \<le> 0"
  shows "random_content w v =
    [ConsoleError (RangeError ''random_content() error: total_size argument is not a positive integer''),
     Return 500 failure_message]"
  using assms by (auto simp: random_content_def try_block_def validate_def Let_def)

text \<open>
  Claim C5, at the request \<open>block_size = 'abc'\<close>: \<open>parseInt\<close> gives \<open>NaN\<close>, the test
  \<open>block_size <= 0\<close> is false, no \<open>RangeError\<close> is thrown, and the run goes on to
  \<open>fs.statSync\<close>.
\<close>

theorem non_numeric_block_size_not_rejected:
  "parseInt (lit ''abc'') = NaN
   \<and> validate (request (lit ''abc'') (lit ''500''))
       = Inr \<lparr>cfg_base_path = lit ''/ephi/'', cfg_block_size = NaN, cfg_total_size = Num 500\<rparr>
   \<and> (\<exists>outcome events.
         random_content w (request (lit ''abc'') (lit ''500'')) = StatSync outcome # events)"
proof -
  have v: "validate (request (lit ''abc'') (lit ''500''))
       = Inr \<lparr>cfg_base_path = lit ''/ephi/'', cfg_block_size = NaN, cfg_total_size = Num 500\<rparr>"
    by (simp add: parse_simps)
  have "\<exists>outcome events.
         random_content w (request (lit ''abc'') (lit ''500'')) = StatSync outcome # events"
    by (auto simp: v random_content_def try_block_def Let_def split: prod.splits sum.splits)
  moreover have "parseInt (lit ''abc'') = NaN" by (simp add: parse_simps)
  ultimately show ?thesis using v by simp
qed

lemma no_separator: "47 \<notin> set (lit ''0123456789abcdefghijklmnopqrstuvwxyz'')"
  by (simp add: lit_def)

lemma drop_prefix_literal: "substring (lit ''0.'' @ digits) 2 = digits"
  by (simp add: substring_def lit_def)

text \<open>
  Claim C6, amended. The link target of every fragment is the base path, the identifier and
  \<open>.html\<close>. The identifier is the text the engine prints for a random fraction in base 36,
  without its first two characters. When that text is \<open>0\<close>, or \<open>0.\<close> followed by characters
  from \<open>0\<close> to \<open>9\<close> and \<open>a\<close> to \<open>z\<close>, the identifier consists of these characters only and
  holds no path separator; it is empty when the text is \<open>0\<close>, and it is \<open>undefined\<close>
  exactly when the text is \<open>0.undefined\<close>.
\<close>

theorem link_target_shape:
  assumes "loop_body w base_path block_size total_size st = Inr st'"
    and "printed = toString36 w (math_random w (2 * iteration st + 1))"
    and "printed = lit ''0''
         \<or> (\<exists>digits. printed = lit ''0.'' @ digits
               \<and> set digits \<subseteq> set (lit ''0123456789abcdefghijklmnopqrstuvwxyz''))"
  shows \<open>\<exists>ident line.
           fragments st' = fragments st @ [(ident, line)]
         \<and> built_contents st' = built_contents st
              @ lit ''<a href="'' @ link_target base_path ident @ lit ''">'' @ line @ lit ''</a>''
         \<and> link_target base_path ident = base_path @ ident @ lit ''.html''
         \<and> ident = substring printed 2
         \<and> set ident \<subseteq> set (lit ''0123456789abcdefghijklmnopqrstuvwxyz'')
         \<and> 47 \<notin> set ident
         \<and> (printed = lit ''0'' \<longrightarrow> ident = [])
         \<and> (ident = lit ''undefined'' \<longleftrightarrow> printed = lit ''0.undefined'')\<close>
proof -
  let ?ident = "page_id w (math_random w (2 * iteration st + 1))"
  from assms(1) obtain line where
    "fragments st' = fragments st @ [(?ident, line)]"
    \<open>built_contents st' = built_contents st
       @ lit ''<a href="'' @ link_target base_path ?ident @ lit ''">'' @ line @ lit ''</a>''\<close>
    by (auto simp: loop_body_def Let_def anchor_def split: sum.splits prod.splits)
  moreover have "link_target base_path ?ident = base_path @ ?ident @ lit ''.html''"
    by (simp add: link_target_def)
  moreover have i: "?ident = substring printed 2"
    by (simp add: page_id_def assms(2))
  moreover have "set ?ident \<subseteq> set (lit ''0123456789abcdefghijklmnopqrstuvwxyz'')"
    using assms(3) unfolding i by (auto simp: drop_prefix_literal) (simp add: substring_def lit_def)
  moreover from this have "47 \<notin> set ?ident" using no_separator by blast
  moreover have "printed = lit ''0'' \<longrightarrow> ?ident = []"
    unfolding i by (simp add: substring_def lit_def)
  moreover have "?ident = lit ''undefined'' \<longleftrightarrow> printed = lit ''0.undefined''"
    using assms(3) unfolding i
  proof
    assume "printed = lit ''0''"
    then show "substring printed 2 = lit ''undefined'' \<longleftrightarrow> printed = lit ''0.undefined''"
      by (simp add: substring_def lit_def)
  next
    assume "\<exists>digits. printed = lit ''0.'' @ digits
               \<and> set digits \<subseteq> set (lit ''0123456789abcdefghijklmnopqrstuvwxyz'')"
    then obtain digits where "printed = lit ''0.'' @ digits" by blast
    then show "substring printed 2 = lit ''undefined'' \<longleftrightarrow> printed = lit ''0.undefined''"
      by (auto simp: substring_def lit_def)
  qed
  ultimately show ?thesis by blast
qed

lemma shortest36_undefined:
  "shortest36 1 3834218238251763 = [30, 23, 13, 14, 15, 18, 23, 14, 13]"
  by (simp add: shortest36.simps Let_def)

lemma shortest36_undefined':
  "shortest36 (Suc 0) 3834218238251763 = [30, 23, 13, 14, 15, 18, 23, 14, 13]"
  using shortest36_undefined by simp

lemma undefined_world_fields:
  "corpus_bytes undefined_world = [97, 98]"
  "math_random undefined_world = (\<lambda>k. if k = 1 then 3834218238251763 / 4503599627370496 else 0)"
  "stat_throws undefined_world = False" "open_throws undefined_world = False"
  "alloc_throws undefined_world x = False" "read_throws undefined_world i k = False"
  "close_throws undefined_world = False" "utf8 undefined_world = ascii_text"
  "toString36 undefined_world = print36 (\<lambda>x. shortest36 1 \<lfloor>x * 2 ^ 52\<rfloor>)"
  by (simp_all add: undefined_world_def quiet_world_fields)

lemma undefined_printed:
  "toString36 undefined_world (3834218238251763 / 4503599627370496) = lit ''0.undefined''"
  by (simp add: undefined_world_fields print36_def shortest36_undefined' digit36_def lit_def)

lemma undefined_sampling:
  \<open>sampling undefined_world (lit ''/ephi/'') 2 2 =
     Inr \<lparr>read_buffer = [97, 98],
          built_contents = lit ''<a href="/ephi/undefined.html">ab</a>'',
          concatenated_text_length = 2, loop_limiter = 1, iteration = 1,
          fragments = [(lit ''undefined'', lit ''ab'')]\<rparr>\<close>
proof -
  show ?thesis
    by (simp add: sampling_def initial_state_def budget_code sampling_loop.simps loop_body_def
        sample_def read_block_def readSync_def trim_line_def slice_def page_id_def undefined_printed
        substring_def anchor_def link_target_def normalize_line_def ascii_text_def Let_def
        undefined_world_fields(1-8) lit_def)
qed

lemma markup_first_pass:
  \<open>loop_body markup_world (lit ''/ephi/'') 4 6 (initial_state 4 6) =
     Inr \<lparr>read_buffer = [60, 34, 38, 62],
          built_contents = lit ''<a href="/ephi/1.html"><"&></a>'',
          concatenated_text_length = 4, loop_limiter = 3, iteration = 1,
          fragments = [(lit ''1'', lit ''<"&>'')]\<rparr>\<close>
  by (simp add: loop_simps markup_world_def quiet_world_fields expand36_unit)

lemma markup_printed:
  "toString36 markup_world (math_random markup_world (2 * iteration (initial_state 4 6) + 1))
     = lit ''0.'' @ lit ''1''"
  by (simp add: markup_world_def quiet_world_fields initial_state_def print36_def expand36_unit
      digit36_def lit_def)

theorem link_target_shape_witness:
  \<open>\<exists>st'. loop_body markup_world (lit ''/ephi/'') 4 6 (initial_state 4 6) = Inr st'
      \<and> toString36 markup_world (math_random markup_world 1) = lit ''0.1''
      \<and> fragments st' = [(lit ''1'', lit ''<"&>'')]
      \<and> built_contents st' = lit ''<a href="'' @ link_target (lit ''/ephi/'') (lit ''1'')
            @ lit ''">'' @ lit ''<"&>'' @ lit ''</a>''
      \<and> link_target (lit ''/ephi/'') (lit ''1'') = lit ''/ephi/1.html''\<close>
proof -
  have c: "lit ''0.'' @ lit ''1'' = lit ''0''
         \<or> (\<exists>digits. lit ''0.'' @ lit ''1'' = lit ''0.'' @ digits
               \<and> set digits \<subseteq> set (lit ''0123456789abcdefghijklmnopqrstuvwxyz''))"
    by (simp add: lit_def)
  from link_target_shape [OF markup_first_pass markup_printed [symmetric] c]
  obtain ident line where
    f: "fragments \<lparr>read_buffer = [60, 34, 38, 62],
          built_contents = lit ''<a href=\"/ephi/1.html\"><\"&></a>'',
          concatenated_text_length = 4, loop_limiter = 3, iteration = 1,
          fragments = [(lit ''1'', lit ''<\"&>'')]\<rparr>
        = fragments (initial_state 4 6) @ [(ident, line)]"
    and b: "built_contents \<lparr>read_buffer = [60, 34, 38, 62],
          built_contents = lit ''<a href=\"/ephi/1.html\"><\"&></a>'',
          concatenated_text_length = 4, loop_limiter = 3, iteration = 1,
          fragments = [(lit ''1'', lit ''<\"&>'')]\<rparr>
        = built_contents (initial_state 4 6)
            @ lit ''<a href=\"'' @ link_target (lit ''/ephi/'') ident @ lit ''\">'' @ line
            @ lit ''</a>''"
    and l: "link_target (lit ''/ephi/'') ident = lit ''/ephi/'' @ ident @ lit ''.html''"
    by blast
  from f have i: "ident = lit ''1''" "line = lit ''<\"&>''" by (simp_all add: initial_state_def)
  from l i have t: "link_target (lit ''/ephi/'') (lit ''1'') = lit ''/ephi/1.html''"
    by (simp add: lit_def)
  from b i have "lit ''<a href=\"/ephi/1.html\"><\"&></a>''
      = lit ''<a href=\"'' @ link_target (lit ''/ephi/'') (lit ''1'') @ lit ''\">''
          @ lit ''<\"&>'' @ lit ''</a>''"
    by (simp add: initial_state_def)
  moreover have "toString36 markup_world (math_random markup_world 1) = lit ''0.1''"
    using markup_printed by (simp add: initial_state_def lit_def)
  ultimately show ?thesis using t
    by (simp only: markup_first_pass loop_state.simps sum.inject simp_thms ex_simps)
qed

lemma request_2_2:
  "validate (request (lit ''2'') (lit ''2''))
     = Inr \<lparr>cfg_base_path = lit ''/ephi/'', cfg_block_size = Num 2, cfg_total_size = Num 2\<rparr>"
  by (simp add: parse_simps)

lemma zero_random_sampling:
  \<open>sampling zero_random_world (lit ''/ephi/'') 2 2 =
     Inr \<lparr>read_buffer = [97, 98],
          built_contents = lit ''<a href="/ephi/.html">ab</a>'',
          concatenated_text_length = 2, loop_limiter = 1, iteration = 1,
          fragments = [([], lit ''ab'')]\<rparr>\<close>
  by (simp add: loop_simps zero_random_world_def quiet_world_fields)

lemma zero_random_responses:
  \<open>responses (random_content zero_random_world (request (lit ''2'') (lit ''2'')))
       = [(200, page (lit ''<a href="/ephi/.html">ab</a>''))]\<close>
  by (simp add: request_2_2 zero_random_sampling random_content_def try_block_def
      effective_sizes_def zero_random_world_def [THEN arg_cong [of _ _ corpus_bytes]]
      zero_random_world_def [THEN arg_cong [of _ _ stat_throws]]
      zero_random_world_def [THEN arg_cong [of _ _ open_throws]]
      zero_random_world_def [THEN arg_cong [of _ _ alloc_throws]]
      zero_random_world_def [THEN arg_cong [of _ _ close_throws]] quiet_world_fields)

lemma undefined_responses:
  \<open>responses (random_content undefined_world (request (lit ''2'') (lit ''2'')))
       = [(200, page (lit ''<a href="/ephi/undefined.html">ab</a>''))]\<close>
  by (simp add: request_2_2 undefined_sampling random_content_def try_block_def
      effective_sizes_def undefined_world_fields)

text \<open>
  Claim C6 as stated fails twice. When \<open>Math.random()\<close> returns 0, \<open>(0).toString(36)\<close> is
  \<open>"0"\<close>, \<open>substring(2)\<close> of it is empty, and the link target is \<open>/ephi/.html\<close>. When it
  returns the double \<open>3834218238251763 / 2 ^ 52\<close>, the base-36 fraction \<open>0.undefined\<close>, which
  is \<open>86464843759093 / 36 ^ 9\<close>, lies nearer to it than half the distance between two
  doubles, so \<open>0.undefined\<close> is the shortest text that reads back as this double; the
  identifier is \<open>undefined\<close> and the link target \<open>/ephi/undefined.html\<close>.
\<close>

theorem empty_page_identifier:
  \<open>math_random zero_random_world 1 = 0
   \<and> toString36 zero_random_world 0 = lit ''0''
   \<and> page_id zero_random_world 0 = []
   \<and> responses (random_content zero_random_world (request (lit ''2'') (lit ''2'')))
       = [(200, page (lit ''<a href="/ephi/.html">ab</a>''))]
   \<and> sampling zero_random_world (lit ''/ephi/'') 2 2 =
       Inr \<lparr>read_buffer = [97, 98],
            built_contents = lit ''<a href="/ephi/.html">ab</a>'',
            concatenated_text_length = 2, loop_limiter = 1, iteration = 1,
            fragments = [([], lit ''ab'')]\<rparr>
   \<and> math_random undefined_world 1 = 3834218238251763 / 2 ^ 52
   \<and> \<bar>86464843759093 / 36 ^ 9 - math_random undefined_world 1\<bar> < 1 / 2 ^ 54
   \<and> toString36 undefined_world (math_random undefined_world 1) = lit ''0.undefined''
   \<and> page_id undefined_world (math_random undefined_world 1) = lit ''undefined''
   \<and> responses (random_content undefined_world (request (lit ''2'') (lit ''2'')))
       = [(200, page (lit ''<a href="/ephi/undefined.html">ab</a>''))]
   \<and> sampling undefined_world (lit ''/ephi/'') 2 2 =
       Inr \<lparr>read_buffer = [97, 98],
            built_contents = lit ''<a href="/ephi/undefined.html">ab</a>'',
            concatenated_text_length = 2, loop_limiter = 1, iteration = 1,
            fragments = [(lit ''undefined'', lit ''ab'')]\<rparr>\<close>
proof -
  have z: "math_random zero_random_world 1 = 0" "toString36 zero_random_world 0 = lit ''0''"
    "page_id zero_random_world 0 = []"
    by (simp_all add: zero_random_world_def quiet_world_fields page_id_def print36_def
        substring_def lit_def)
  have m: "math_random undefined_world 1 = 3834218238251763 / 4503599627370496"
    by (simp add: undefined_world_fields)
  have m': "math_random undefined_world 1 = 3834218238251763 / 2 ^ 52"
    unfolding m by simp
  have near: "\<bar>86464843759093 / 36 ^ 9 - math_random undefined_world 1\<bar> < 1 / 2 ^ 54"
    unfolding m by (simp add: abs_less_iff)
  have p: "toString36 undefined_world (math_random undefined_world 1) = lit ''0.undefined''"
    unfolding m by (rule undefined_printed)
  have i: "page_id undefined_world (math_random undefined_world 1) = lit ''undefined''"
    unfolding page_id_def p by (simp add: substring_def lit_def)
  from z m' near p i zero_random_responses zero_random_sampling undefined_responses
    undefined_sampling
  show ?thesis by (intro conjI)
qed

text \<open>
  Claim C10. The text of a fragment goes into the anchor and into the page as it was
  decoded and normalized, with nothing escaped: for the corpus \<open><"&>ab\<close> the characters
  \<open><\<close>, \<open>"\<close>, \<open>&\<close> and \<open>>\<close> stand in the text of the first anchor of the body returned.
\<close>

theorem fragment_text_not_escaped:
  \<open>ascii_text (corpus_bytes markup_world) = lit ''<"&>ab''
   \<and> responses (random_content markup_world (request (lit ''4'') (lit ''6'')))
       = [(200,
           lit ''<!DOCTYPE html>'' @ [LF]
           @ lit ''<html lang="en">'' @ [LF]
           @ lit ''    <head>'' @ [LF]
           @ lit ''        <meta charset="UTF-8">'' @ [LF]
           @ lit ''        <title>Replicant EPHI</title>'' @ [LF]
           @ lit ''        <link rel="stylesheet" href="/css/style.css">'' @ [LF]
           @ lit ''    </head>'' @ [LF]
           @ lit ''    <body>'' @ [LF]
           @ lit ''        <div id="container"><p>''
           @ lit ''<a href="/ephi/1.html">'' @ lit ''<"&>'' @ lit ''</a>''
           @ lit ''<a href="/ephi/.html">ab</a>''
           @ lit ''</p></div>'' @ [LF]
           @ lit ''    </body>'' @ [LF]
           @ lit ''</html>'')]
   \<and> (\<exists>before behind.
         snd (hd (responses (random_content markup_world (request (lit ''4'') (lit ''6'')))))
           = before @ lit ''<"&>'' @ behind)\<close>
proof -
  have c: "ascii_text (corpus_bytes markup_world) = lit ''<\"&>ab''"
    by (simp add: markup_world_fields ascii_text_def lit_def)
  have r: \<open>responses (random_content markup_world (request (lit ''4'') (lit ''6'')))
       = [(200,
           lit ''<!DOCTYPE html>'' @ [LF]
           @ lit ''<html lang="en">'' @ [LF]
           @ lit ''    <head>'' @ [LF]
           @ lit ''        <meta charset="UTF-8">'' @ [LF]
           @ lit ''        <title>Replicant EPHI</title>'' @ [LF]
           @ lit ''        <link rel="stylesheet" href="/css/style.css">'' @ [LF]
           @ lit ''    </head>'' @ [LF]
           @ lit ''    <body>'' @ [LF]
           @ lit ''        <div id="container"><p>''
           @ lit ''<a href="/ephi/1.html">'' @ lit ''<"&>'' @ lit ''</a>''
           @ lit ''<a href="/ephi/.html">ab</a>''
           @ lit ''</p></div>'' @ [LF]
           @ lit ''    </body>'' @ [LF]
           @ lit ''</html>'')]\<close>
    unfolding markup_responses by (simp add: page_def lit_def)
  have \<open>\<exists>before behind.
         snd (hd (responses (random_content markup_world (request (lit ''4'') (lit ''6'')))))
           = before @ lit ''<"&>'' @ behind\<close>
    unfolding r
    by (rule exI [of _ \<open>lit ''<!DOCTYPE html>'' @ [LF]
           @ lit ''<html lang="en">'' @ [LF]
           @ lit ''    <head>'' @ [LF]
           @ lit ''        <meta charset="UTF-8">'' @ [LF]
           @ lit ''        <title>Replicant EPHI</title>'' @ [LF]
           @ lit ''        <link rel="stylesheet" href="/css/style.css">'' @ [LF]
           @ lit ''    </head>'' @ [LF]
           @ lit ''    <body>'' @ [LF]
           @ lit ''        <div id="container"><p>''
           @ lit ''<a href="/ephi/1.html">''\<close>],
        rule exI [of _ \<open>lit ''</a>''
           @ lit ''<a href="/ephi/.html">ab</a>''
           @ lit ''</p></div>'' @ [LF]
           @ lit ''    </body>'' @ [LF]
           @ lit ''</html>''\<close>]) simp
  with c r show ?thesis by (intro conjI)
qed

end
